theory Spec2Isabelle
  imports Main "HOL-Library.AList" "HOL-Library.Sublist" "HOL-Library.Char_ord"
    "HOL-Library.List_Lexorder" "HOL-Library.Product_Lexorder"
begin

section \<open>Data model (main.go, lines 19-43 and 303-310)\<close>

text \<open>
  \<^verbatim>\<open>FuncInfo\<close> is the record of one parsed function or method. Go's \<^verbatim>\<open>int\<close> fields are
  modelled as unbounded integers: the diff engine only compares them and never does
  arithmetic on them.
\<close>

record FuncInfo =
  Package :: string
  File :: string
  Name :: string
  Receiver :: string
  Signature :: string
  Exported :: bool
  StartLine :: int
  EndLine :: int
  LineCount :: int

datatype FuncKey = FuncKey (keyPackage: string) (keyReceiver: string) (keyName: string)

text \<open>
  \<^verbatim>\<open>type FuncSet map[FuncKey]*FuncInfo\<close>. A Go map is ranged over in an unspecified order,
  and the order decides the order of the result slices, so the map is an association
  list: the list order is the order in which one \<^verbatim>\<open>range\<close> loop visits the entries, and
  the keys of a map are distinct. The pointers are never nil (\<^verbatim>\<open>collectFuncs\<close> stores
  the address of a fresh struct) and nothing is written through them, so an entry holds
  the record itself.
\<close>

type_synonym FuncSet = "(FuncKey \<times> FuncInfo) list"

record PackageStats =
  New :: int
  Removed :: int
  Changed :: int

text \<open>
  \<^verbatim>\<open>map[string]*PackageStats\<close>: an association list with distinct keys, in the order in
  which \<^verbatim>\<open>getStats\<close> created the entries. The renderer sorts the keys before it prints
  them, so this order is never observed.
\<close>

type_synonym PkgStatsMap = "(string \<times> PackageStats) list"

record DiffResult =
  NewFuncs :: "FuncInfo list"
  RemovedFuncs :: "FuncInfo list"
  ChangedFuncs :: "(FuncInfo \<times> FuncInfo) list"
  FromTotal :: int
  ToTotal :: int
  PkgStats :: PkgStatsMap

section \<open>Building an inventory (collectFuncs, lines 186-208)\<close>

text \<open>The key under which \<^verbatim>\<open>collectFuncs\<close> stores a record (lines 203-207).\<close>

definition funcKey :: "FuncInfo \<Rightarrow> FuncKey" where
  "funcKey info = FuncKey (Package info) (Receiver info) (Name info)"

text \<open>\<^verbatim>\<open>funcs[key] = info\<close> (line 208): a later declaration overwrites an earlier one.\<close>

definition insertFunc :: "FuncSet \<Rightarrow> FuncInfo \<Rightarrow> FuncSet" where
  "insertFunc funcs info = AList.update (funcKey info) info funcs"

text \<open>
  An inventory is a map as \<^verbatim>\<open>collectFuncs\<close> builds it: the keys are distinct (it is a
  map) and every record is stored under its own (package, receiver, name) triple.
\<close>

definition inventory :: "FuncSet \<Rightarrow> bool" where
  "inventory funcs \<longleftrightarrow>
     distinct (map fst funcs) \<and> list_all (\<lambda>(key, info). key = funcKey info) funcs"

section \<open>The diff engine (diffFuncs, lines 312-358)\<close>

definition zeroStats :: PackageStats where
  "zeroStats = \<lparr>New = 0, Removed = 0, Changed = 0\<rparr>"

text \<open>
  \<^verbatim>\<open>getStats\<close> (lines 321-328) returns the entry of a package, creating a zero entry when
  there is none. The Go closure returns a pointer into the map; the model returns the
  value and the map that now has the entry, and the caller stores the incremented value
  back under the same key.
\<close>

definition getStats :: "string \<Rightarrow> PkgStatsMap \<Rightarrow> PackageStats \<times> PkgStatsMap" where
  "getStats pkg stats =
     (case map_of stats pkg of
        Some s \<Rightarrow> (s, stats)
      | None \<Rightarrow> (zeroStats, stats @ [(pkg, zeroStats)]))"

text \<open>\<^verbatim>\<open>getStats(pkg).New++\<close>, \<^verbatim>\<open>.Changed++\<close> and \<^verbatim>\<open>.Removed++\<close>.\<close>

definition incNew :: "string \<Rightarrow> PkgStatsMap \<Rightarrow> PkgStatsMap" where
  "incNew pkg stats =
     (let (s, stats') = getStats pkg stats
      in AList.update pkg (s\<lparr>New := New s + 1\<rparr>) stats')"

definition incChanged :: "string \<Rightarrow> PkgStatsMap \<Rightarrow> PkgStatsMap" where
  "incChanged pkg stats =
     (let (s, stats') = getStats pkg stats
      in AList.update pkg (s\<lparr>Changed := Changed s + 1\<rparr>) stats')"

definition incRemoved :: "string \<Rightarrow> PkgStatsMap \<Rightarrow> PkgStatsMap" where
  "incRemoved pkg stats =
     (let (s, stats') = getStats pkg stats
      in AList.update pkg (s\<lparr>Removed := Removed s + 1\<rparr>) stats')"

text \<open>The comparison of lines 340-343.\<close>

definition differs :: "FuncInfo \<Rightarrow> FuncInfo \<Rightarrow> bool" where
  "differs fromInfo toInfo \<longleftrightarrow>
     Signature fromInfo \<noteq> Signature toInfo \<or>
     File fromInfo \<noteq> File toInfo \<or>
     StartLine fromInfo \<noteq> StartLine toInfo \<or>
     EndLine fromInfo \<noteq> EndLine toInfo"

text \<open>
  The first loop (lines 331-347), over the entries of \<^verbatim>\<open>from\<close> that are still to be
  visited.
\<close>

fun newAndChanged :: "FuncSet \<Rightarrow> FuncSet \<Rightarrow> DiffResult \<Rightarrow> DiffResult" where
  "newAndChanged toFuncs [] result = result"
| "newAndChanged toFuncs ((key, fromInfo) # rest) result =
     (case map_of toFuncs key of
        None \<Rightarrow>
          newAndChanged toFuncs rest
            (result\<lparr>NewFuncs := NewFuncs result @ [fromInfo],
                    PkgStats := incNew (Package fromInfo) (PkgStats result)\<rparr>)
      | Some toInfo \<Rightarrow>
          if differs fromInfo toInfo
          then newAndChanged toFuncs rest
            (result\<lparr>ChangedFuncs := ChangedFuncs result @ [(fromInfo, toInfo)],
                    PkgStats := incChanged (Package fromInfo) (PkgStats result)\<rparr>)
          else newAndChanged toFuncs rest result)"

text \<open>The second loop (lines 350-355), over the entries of \<^verbatim>\<open>to\<close>.\<close>

fun removed :: "FuncSet \<Rightarrow> FuncSet \<Rightarrow> DiffResult \<Rightarrow> DiffResult" where
  "removed fromFuncs [] result = result"
| "removed fromFuncs ((key, toInfo) # rest) result =
     (case map_of fromFuncs key of
        None \<Rightarrow>
          removed fromFuncs rest
            (result\<lparr>RemovedFuncs := RemovedFuncs result @ [toInfo],
                    PkgStats := incRemoved (Package toInfo) (PkgStats result)\<rparr>)
      | Some _ \<Rightarrow> removed fromFuncs rest result)"

definition diffFuncs :: "FuncSet \<Rightarrow> FuncSet \<Rightarrow> DiffResult" where
  "diffFuncs fromFuncs toFuncs =
     removed fromFuncs toFuncs
       (newAndChanged toFuncs fromFuncs
          \<lparr>NewFuncs = [], RemovedFuncs = [], ChangedFuncs = [],
           FromTotal = int (length fromFuncs), ToTotal = int (length toFuncs),
           PkgStats = []\<rparr>)"

subsection \<open>Closed forms of the two loops\<close>

text \<open>
  The records of \<open>xs\<close> whose key has no entry in \<open>ys\<close>, in the order of \<open>xs\<close>: what
  the first loop appends to \<^verbatim>\<open>NewFuncs\<close> and the second to \<^verbatim>\<open>RemovedFuncs\<close>.
\<close>

definition onlyIn :: "FuncSet \<Rightarrow> FuncSet \<Rightarrow> FuncInfo list" where
  "onlyIn xs ys = map snd (filter (\<lambda>(key, info). map_of ys key = None) xs)"

text \<open>What the first loop appends to \<^verbatim>\<open>ChangedFuncs\<close>.\<close>

definition changedIn :: "FuncSet \<Rightarrow> FuncSet \<Rightarrow> (FuncInfo \<times> FuncInfo) list" where
  "changedIn xs ys =
     concat (map (\<lambda>(key, fromInfo).
       case map_of ys key of
         None \<Rightarrow> []
       | Some toInfo \<Rightarrow> if differs fromInfo toInfo then [(fromInfo, toInfo)] else []) xs)"

text \<open>The counters of a package; a package without an entry has none.\<close>

definition statsOf :: "PkgStatsMap \<Rightarrow> string \<Rightarrow> PackageStats" where
  "statsOf stats pkg = (case map_of stats pkg of Some s \<Rightarrow> s | None \<Rightarrow> zeroStats)"

text \<open>
  The fourth class of the specification, which \<^verbatim>\<open>diffFuncs\<close> drops from its output: the
  keys present in both inventories whose two records agree on signature, file, start
  line and end line.
\<close>

definition unchangedKeys :: "FuncSet \<Rightarrow> FuncSet \<Rightarrow> FuncKey list" where
  "unchangedKeys fromFuncs toFuncs =
     map fst (filter (\<lambda>(key, fromInfo).
       case map_of toFuncs key of
         None \<Rightarrow> False
       | Some toInfo \<Rightarrow>
           Signature fromInfo = Signature toInfo \<and> File fromInfo = File toInfo \<and>
           StartLine fromInfo = StartLine toInfo \<and> EndLine fromInfo = EndLine toInfo) fromFuncs)"

section \<open>Example inventories\<close>

text \<open>
  The examples of the specification's testable properties: \<open>exF\<close> changes its signature,
  \<open>exM\<close> exists only on the from side, \<open>exG\<close> is the same on both sides and \<open>exR\<close>
  exists only on the to side.
\<close>

definition exF :: FuncInfo where
  "exF = \<lparr>Package = ''a'', File = ''a.go'', Name = ''F'', Receiver = [],
          Signature = ''(x int)'', Exported = True, StartLine = 1, EndLine = 3,
          LineCount = 3\<rparr>"

definition exF' :: FuncInfo where
  "exF' = exF\<lparr>Signature := ''(x int, y int)''\<rparr>"

definition exM :: FuncInfo where
  "exM = \<lparr>Package = ''b'', File = ''b/t.go'', Name = ''M'', Receiver = ''*T'',
          Signature = ''()'', Exported = True, StartLine = 10, EndLine = 12,
          LineCount = 3\<rparr>"

definition exG :: FuncInfo where
  "exG = \<lparr>Package = ''a'', File = ''a.go'', Name = ''g'', Receiver = [],
          Signature = ''() (error)'', Exported = False, StartLine = 5, EndLine = 9,
          LineCount = 5\<rparr>"

definition exR :: FuncInfo where
  "exR = \<lparr>Package = ''c'', File = ''c/c.go'', Name = ''Old'', Receiver = ''T'',
          Signature = ''(s string)'', Exported = True, StartLine = 2, EndLine = 2,
          LineCount = 1\<rparr>"

definition exFrom :: FuncSet where
  "exFrom = [(funcKey exF, exF), (funcKey exM, exM), (funcKey exG, exG)]"

definition exTo :: FuncSet where
  "exTo = [(funcKey exG, exG), (funcKey exR, exR), (funcKey exF', exF')]"


section \<open>Go strings\<close>

text \<open>
  A Go string is a sequence of bytes, and so is a \<^typ>\<open>string\<close> here. The functions of
  the \<^verbatim>\<open>strings\<close> package that the renderer calls are modelled on bytes, as the library
  documents them.
\<close>

abbreviation LF :: char where "LF \<equiv> CHR 0x0A"

abbreviation CR :: char where "CR \<equiv> CHR 0x0D"

abbreviation TAB :: char where "TAB \<equiv> CHR 0x09"

abbreviation BQ :: char where "BQ \<equiv> CHR 0x60"

text \<open>
  \<^verbatim>\<open>strings.Split(s, sep)\<close> for a separator of one byte: the pieces between the
  separators, so the empty string splits into one empty piece. The result is never
  empty, which makes the last case unreachable.
\<close>

fun strSplit :: "char \<Rightarrow> string \<Rightarrow> string list" where
  "strSplit sep [] = [[]]"
| "strSplit sep (c # cs) =
     (if c = sep then [] # strSplit sep cs
      else (case strSplit sep cs of l # ls \<Rightarrow> (c # l) # ls | [] \<Rightarrow> [[c]]))"

text \<open>\<^verbatim>\<open>strings.Join(elems, sep)\<close>.\<close>

fun strJoin :: "string \<Rightarrow> string list \<Rightarrow> string" where
  "strJoin sep [] = []"
| "strJoin sep [x] = x"
| "strJoin sep (x # y # ys) = x @ sep @ strJoin sep (y # ys)"

text \<open>
  \<^verbatim>\<open>strings.ReplaceAll(s, old, new)\<close>: the non-overlapping occurrences of \<open>old\<close> are
  replaced from left to right. The program passes constant, non-empty \<open>old\<close> strings
  only; Go's behaviour for an empty \<open>old\<close> (an insertion at every rune boundary) is not
  modelled, and the function returns \<open>s\<close> there.
\<close>

function replaceAll :: "string \<Rightarrow> string \<Rightarrow> string \<Rightarrow> string" where
  "replaceAll old new s =
     (if old = [] \<or> s = [] then s
      else if prefix old s then new @ replaceAll old new (drop (length old) s)
      else hd s # replaceAll old new (tl s))"
  by pat_completeness auto
termination
  by (relation "measure (\<lambda>(old, new, s). length s)") auto

declare replaceAll.simps [simp del]

text \<open>\<^verbatim>\<open>strings.TrimRight(s, cutset)\<close> for a cutset of ASCII bytes.\<close>

definition trimRight :: "string \<Rightarrow> string \<Rightarrow> string" where
  "trimRight s cutset = rev (dropWhile (\<lambda>c. c \<in> set cutset) (rev s))"

text \<open>
  \<^verbatim>\<open>strings.TrimSpace\<close> removes the leading and trailing white space that
  \<^verbatim>\<open>unicode.IsSpace\<close> defines: the six ASCII characters tab, line feed, vertical tab,
  form feed, carriage return and space, and the code points U+0085, U+00A0, U+1680,
  U+2000 to U+200A, U+2028, U+2029, U+202F, U+205F and U+3000, here in their UTF-8
  encodings. A byte sequence that is not the encoding of one of them is not white
  space.
\<close>

definition asciiSpace :: "char list" where
  "asciiSpace = [CHR 0x09, CHR 0x0A, CHR 0x0B, CHR 0x0C, CHR 0x0D, CHR 0x20]"

definition unicodeSpace :: "string list" where
  "unicodeSpace =
     [[CHR 0xC2, CHR 0x85], [CHR 0xC2, CHR 0xA0], [CHR 0xE1, CHR 0x9A, CHR 0x80],
      [CHR 0xE2, CHR 0x80, CHR 0x80], [CHR 0xE2, CHR 0x80, CHR 0x81],
      [CHR 0xE2, CHR 0x80, CHR 0x82], [CHR 0xE2, CHR 0x80, CHR 0x83],
      [CHR 0xE2, CHR 0x80, CHR 0x84], [CHR 0xE2, CHR 0x80, CHR 0x85],
      [CHR 0xE2, CHR 0x80, CHR 0x86], [CHR 0xE2, CHR 0x80, CHR 0x87],
      [CHR 0xE2, CHR 0x80, CHR 0x88], [CHR 0xE2, CHR 0x80, CHR 0x89],
      [CHR 0xE2, CHR 0x80, CHR 0x8A], [CHR 0xE2, CHR 0x80, CHR 0xA8],
      [CHR 0xE2, CHR 0x80, CHR 0xA9], [CHR 0xE2, CHR 0x80, CHR 0xAF],
      [CHR 0xE2, CHR 0x81, CHR 0x9F], [CHR 0xE3, CHR 0x80, CHR 0x80]]"

text \<open>The number of bytes of the white space character a string starts with, or 0.\<close>

definition spaceRuneLen :: "string \<Rightarrow> nat" where
  "spaceRuneLen s =
     (if s \<noteq> [] \<and> hd s \<in> set asciiSpace then 1
      else if 2 \<le> length s \<and> take 2 s \<in> set unicodeSpace then 2
      else if 3 \<le> length s \<and> take 3 s \<in> set unicodeSpace then 3
      else 0)"

lemma spaceRuneLen_less:
  "spaceRuneLen s \<noteq> 0 \<Longrightarrow> length s - spaceRuneLen s < length s"
  by (cases s) (auto simp: spaceRuneLen_def split: if_splits)

text \<open>The left half of \<^verbatim>\<open>TrimSpace\<close>: the string without its leading white space.\<close>

function trimLeftSpace :: "string \<Rightarrow> string" where
  "trimLeftSpace s =
     (if spaceRuneLen s = 0 then s else trimLeftSpace (drop (spaceRuneLen s) s))"
  by pat_completeness auto
termination
  by (relation "measure length") (auto simp: spaceRuneLen_less)

declare trimLeftSpace.simps [simp del]

text \<open>
  The program uses \<^verbatim>\<open>TrimSpace\<close> in tests \<^verbatim>\<open>strings.TrimSpace(x) == ""\<close> only. The
  result is empty exactly when the string is white space throughout, that is, when
  trimming on the left alone leaves nothing.
\<close>

definition isBlank :: "string \<Rightarrow> bool" where
  "isBlank s \<longleftrightarrow> trimLeftSpace s = []"

section \<open>Body text (extractLines, lines 493-511; normalizeBody, lines 732-754)\<close>

text \<open>
  The run-time panics the renderer could raise: a slice expression out of range, and a
  field read through a nil pointer.
\<close>

datatype panic = SliceBoundsOutOfRange | NilPointerDereference

text \<open>
  The slice expression \<^verbatim>\<open>xs[lo:hi]\<close>. Go checks \<open>hi\<close> against the capacity;
  \<^verbatim>\<open>strings.Split\<close> returns a slice whose capacity is its length, and the model checks
  against the length.
\<close>

definition goSlice :: "'a list \<Rightarrow> int \<Rightarrow> int \<Rightarrow> panic + 'a list" where
  "goSlice xs lo hi =
     (if 0 \<le> lo \<and> lo \<le> hi \<and> hi \<le> int (length xs)
      then Inr (take (nat (hi - lo)) (drop (nat lo) xs))
      else Inl SliceBoundsOutOfRange)"

text \<open>
  \<^verbatim>\<open>extractLines\<close>. The line numbers are Go \<^verbatim>\<open>int\<close>s; the only arithmetic on them
  is \<^verbatim>\<open>startLine-1\<close> for a \<^verbatim>\<open>startLine\<close> of at least 1, which cannot overflow, so
  they are unbounded integers here.
\<close>

definition extractLines :: "string \<Rightarrow> int \<Rightarrow> int \<Rightarrow> panic + string" where
  "extractLines src startLine endLine =
     (let lines = strSplit LF src in
      if length lines = 0 then Inr []
      else
        let startLine1 = (if startLine < 1 then 1 else startLine);
            endLine1 = (if endLine > int (length lines) then int (length lines) else endLine)
        in if startLine1 > endLine1 then Inr []
           else (case goSlice lines (startLine1 - 1) endLine1 of
                   Inl p \<Rightarrow> Inl p
                 | Inr ls \<Rightarrow> Inr (strJoin [LF] ls)))"

text \<open>
  \<^verbatim>\<open>normalizeBody\<close>: CRLF and then CR become LF, every line loses its trailing spaces
  and tabs, and the blank lines at the start and at the end are dropped.
\<close>

definition normalizeBody :: "string \<Rightarrow> string" where
  "normalizeBody s =
     (let s1 = replaceAll [CR, LF] [LF] s;
          s2 = replaceAll [CR] [LF] s1;
          lines = strSplit LF s2;
          lines1 = map (\<lambda>l. trimRight l [CHR '' '', TAB]) lines;
          lines2 = dropWhile isBlank lines1;
          lines3 = rev (dropWhile isBlank (rev lines2))
      in strJoin [LF] lines3)"

text \<open>The test of lines 619-621 of \<^verbatim>\<open>writeChangedFuncFile\<close>.\<close>

definition isIdenticalBody :: "string \<Rightarrow> string \<Rightarrow> bool" where
  "isIdenticalBody fromBody toBody =
     (let nf = normalizeBody fromBody; nt = normalizeBody toBody in nf \<noteq> [] \<and> nf = nt)"

subsection \<open>Parts of normalizeBody, named for the proofs\<close>

definition lineEndings :: "string \<Rightarrow> string" where
  "lineEndings s = replaceAll [CR] [LF] (replaceAll [CR, LF] [LF] s)"

definition rtrim :: "string \<Rightarrow> string" where
  "rtrim l = trimRight l [CHR '' '', TAB]"

definition trimEnds :: "string list \<Rightarrow> string list" where
  "trimEnds ls = rev (dropWhile isBlank (rev (dropWhile isBlank ls)))"

subsection \<open>Texts that differ in layout only\<close>

text \<open>
  The specification calls two bodies identical when they have ``identical content
  except trailing whitespace and line-ending style''. These definitions follow those
  words and not the code. A text is cut at every line ending, whether CRLF, CR or LF;
  every line loses its trailing spaces and tabs; and what follows the last line ending
  is a line only when something is left of it, so that a text with and a text without
  a final line ending have the same lines. Two texts are the same up to layout when
  they have the same lines.
\<close>

function textLines :: "string \<Rightarrow> string list" where
  "textLines [] = [[]]"
| "textLines (c # cs) =
     (if c = LF then [] # textLines cs
      else if c = CR
        then [] # textLines (case cs of d # ds \<Rightarrow> if d = LF then ds else cs | [] \<Rightarrow> [])
      else (case textLines cs of l # ls \<Rightarrow> (c # l) # ls | [] \<Rightarrow> [[c]]))"
  by pat_completeness auto
termination
  by (relation "measure length") (auto split: list.splits)

fun stripTrailing :: "string \<Rightarrow> string" where
  "stripTrailing [] = []"
| "stripTrailing (c # cs) =
     (if (c = CHR '' '' \<or> c = TAB) \<and> stripTrailing cs = [] then []
      else c # stripTrailing cs)"

definition layoutLines :: "string \<Rightarrow> string list" where
  "layoutLines s =
     (let ls = map stripTrailing (textLines s)
      in if last ls = [] then butlast ls else ls)"

definition sameUpToLayout :: "string \<Rightarrow> string \<Rightarrow> bool" where
  "sameUpToLayout a b \<longleftrightarrow> layoutLines a = layoutLines b"

section \<open>The report renderer\<close>

subsection \<open>Formatting\<close>

text \<open>The non-ASCII characters of the format strings, in UTF-8.\<close>

definition emDash :: string where
  "emDash = [CHR 0xE2, CHR 0x80, CHR 0x94]"

definition enDash :: string where
  "enDash = [CHR 0xE2, CHR 0x80, CHR 0x93]"

definition rightArrow :: string where
  "rightArrow = [CHR 0xE2, CHR 0x86, CHR 0x92]"

text \<open>A \<^verbatim>\<open>%s\<close> between two backquotes.\<close>

definition quoted :: "string \<Rightarrow> string" where
  "quoted s = [BQ] @ s @ [BQ]"

text \<open>The verb \<^verbatim>\<open>%d\<close>.\<close>

definition digit :: "nat \<Rightarrow> char" where
  "digit n = ''0123456789'' ! n"

function showNat :: "nat \<Rightarrow> string" where
  "showNat n = (if n < 10 then [digit n] else showNat (n div 10) @ [digit (n mod 10)])"
  by pat_completeness auto
termination
  by (relation "measure id") auto

declare showNat.simps [simp del]

definition showInt :: "int \<Rightarrow> string" where
  "showInt i = (if i < 0 then CHR ''-'' # showNat (nat (- i)) else showNat (nat i))"

text \<open>Lines 633-636 (and 430-433, 470-473): the name with its receiver.\<close>

definition fullName :: "FuncInfo \<Rightarrow> string" where
  "fullName f =
     (if Receiver f \<noteq> [] then ''('' @ Receiver f @ '').'' @ Name f else Name f)"

text \<open>\<^verbatim>\<open>formatFuncHeader\<close> (lines 483-490).\<close>

definition formatFuncHeader :: "FuncInfo \<Rightarrow> string" where
  "formatFuncHeader info =
     (let recvPart = (if Receiver info \<noteq> [] then ''('' @ Receiver info @ '') '' else [])
      in ''func '' @ recvPart @ Name info @ Signature info)"

text \<open>\<^verbatim>\<open>changedFuncFilenameWithRecv\<close> (lines 685-693).\<close>

definition changedFuncFilenameWithRecv :: "FuncInfo \<Rightarrow> string" where
  "changedFuncFilenameWithRecv info =
     (let safePath = replaceAll [CHR 0x5C] ''_'' (replaceAll ''/'' ''_'' (File info));
          recv = Receiver info
      in if recv \<noteq> []
         then safePath @ ''__'' @ replaceAll ''*'' ''ptr'' recv @ ''__'' @ Name info @ ''.md''
         else safePath @ ''__'' @ Name info @ ''.md'')"

text \<open>
  What the two replacements do to one character of a path without backslashes, and the
  records on which the name without prefix is shown to be injective: no part holds an
  underscore,
  the path holds no backslash and no empty segment, and the receiver does not hold the
  token that replaces the pointer marker.
\<close>

definition flatten :: "char \<Rightarrow> char" where
  "flatten c = (if c = CHR ''/'' then CHR ''_'' else c)"

definition plainParts :: "FuncInfo \<Rightarrow> bool" where
  "plainParts info \<longleftrightarrow>
     CHR ''_'' \<notin> set (File info) \<and> CHR 0x5C \<notin> set (File info) \<and>
     \<not> sublist ''//'' (File info) \<and>
     CHR ''_'' \<notin> set (Receiver info) \<and> \<not> sublist ''ptr'' (Receiver info) \<and>
     CHR ''_'' \<notin> set (Name info)"

subsection \<open>The outside world\<close>

text \<open>
  What the renderer asks of its collaborators, as parameters of the model:
  \<^verbatim>\<open>gitShowFile ref path\<close> is the content of a file at a revision, or \<open>None\<close> when
  \<^verbatim>\<open>git show\<close> fails; \<^verbatim>\<open>mkdirAll\<close> and \<^verbatim>\<open>writeFile\<close> return the message of the error
  they fail with, or \<open>None\<close> when they succeed; \<^verbatim>\<open>joinPath\<close> is \<^verbatim>\<open>filepath.Join\<close>; and
  \<^verbatim>\<open>sha1Hex6\<close> is the verb \<^verbatim>\<open>%x\<close> of the first six bytes of the SHA-1 sum of a text.
\<close>

record env =
  gitShowFile :: "string \<Rightarrow> string \<Rightarrow> string option"
  mkdirAll :: "string \<Rightarrow> string option"
  writeFile :: "string \<Rightarrow> string \<Rightarrow> string option"
  joinPath :: "string \<Rightarrow> string \<Rightarrow> string"
  sha1Hex6 :: "string \<Rightarrow> string"

text \<open>
  What the renderer changes: the files it has written, as (path, content) in the order
  of the writes, and the warnings it has printed on standard error.
\<close>

record world =
  files :: "(string \<times> string) list"
  stderr :: "string list"

subsection \<open>One file per changed function (writeChangedFuncFile, lines 601-683)\<close>

text \<open>
  Lines 610-617: the body of one side. When \<^verbatim>\<open>git show\<close> fails the body stays empty.
\<close>

definition loadBody :: "env \<Rightarrow> string \<Rightarrow> FuncInfo \<Rightarrow> panic + string" where
  "loadBody e ref info =
     (case gitShowFile e ref (File info) of
        None \<Rightarrow> Inr []
      | Some src \<Rightarrow> extractLines src (StartLine info) (EndLine info))"

text \<open>Lines 640-648 and 651-659: the section of one side.\<close>

definition sideSection :: "string \<Rightarrow> FuncInfo \<Rightarrow> string \<Rightarrow> string" where
  "sideSection ref info body =
     ''#### '' @ ref @ [LF, LF] @
     [BQ, BQ, BQ] @ ''go'' @ [LF] @ formatFuncHeader info @ [LF] @ [BQ, BQ, BQ, LF] @
     ''- file: '' @ quoted (File info) @ [LF] @
     ''- lines: '' @ showInt (StartLine info) @ enDash @ showInt (EndLine info) @
       '' ('' @ showInt (LineCount info) @ '' LOC)'' @ [LF, LF] @
     (if \<not> isBlank body
      then [BQ, BQ, BQ] @ ''go'' @ [LF] @ body @ [LF] @ [BQ, BQ, BQ, LF, LF]
      else ''_function body unavailable_'' @ [LF, LF])"

text \<open>Lines 662-666.\<close>

definition signatureNote :: "string \<Rightarrow> string \<Rightarrow> FuncInfo \<Rightarrow> FuncInfo \<Rightarrow> string" where
  "signatureNote fromRef toRef fromInfo toInfo =
     (if Signature fromInfo \<noteq> Signature toInfo
      then ''#### Signature Change'' @ [LF, LF] @
           ''- '' @ fromRef @ '': '' @ quoted (Signature fromInfo) @ [LF] @
           ''- '' @ toRef @ '': '' @ quoted (Signature toInfo) @ [LF, LF]
      else [])"

text \<open>Line 670: the identical-body callout.\<close>

definition identicalNote :: "string \<Rightarrow> string \<Rightarrow> string" where
  "identicalNote fromRef toRef =
     ''> Note: function bodies are identical between '' @ quoted fromRef @ '' and '' @
     quoted toRef @ ''.'' @ [LF, LF]"

text \<open>The text of the builder before the hash line is appended (lines 632-671).\<close>

definition changedReport ::
  "string \<Rightarrow> string \<Rightarrow> FuncInfo \<Rightarrow> FuncInfo \<Rightarrow> string \<Rightarrow> string \<Rightarrow> string" where
  "changedReport fromRef toRef fromInfo toInfo fromBody toBody =
     ''### '' @ fullName fromInfo @ '' '' @ emDash @ '' '' @ quoted (File fromInfo) @
       [LF, LF] @
     sideSection fromRef fromInfo fromBody @
     sideSection toRef toInfo toBody @
     signatureNote fromRef toRef fromInfo toInfo @
     (if isIdenticalBody fromBody toBody then identicalNote fromRef toRef else [])"

text \<open>
  \<^verbatim>\<open>writeChangedFuncFile\<close> returns \<^verbatim>\<open>(string, error)\<close>: \<open>Inr name\<close> for the name and
  \<open>Inl message\<close> for an error, next to the world after the call. A panic is the outer
  \<open>Inl\<close>.
\<close>

definition writeChangedFuncFile ::
  "env \<Rightarrow> string \<Rightarrow> string \<Rightarrow> string \<Rightarrow> FuncInfo \<Rightarrow> FuncInfo \<Rightarrow> world \<Rightarrow>
     panic + ((string + string) \<times> world)" where
  "writeChangedFuncFile e outDir fromRef toRef fromInfo toInfo w =
     (if outDir = [] then Inr (Inr [], w)
      else case mkdirAll e outDir of
        Some err \<Rightarrow> Inr (Inl (''create out dir: '' @ err), w)
      | None \<Rightarrow>
         (case loadBody e fromRef fromInfo of
            Inl p \<Rightarrow> Inl p
          | Inr fromBody \<Rightarrow>
             (case loadBody e toRef toInfo of
                Inl p \<Rightarrow> Inl p
              | Inr toBody \<Rightarrow>
                 let baseName0 = changedFuncFilenameWithRecv fromInfo;
                     baseName = (if isIdenticalBody fromBody toBody
                                 then ''identical_'' @ baseName0 else baseName0);
                     b = changedReport fromRef toRef fromInfo toInfo fromBody toBody;
                     content = b @ ''_report hash: '' @ sha1Hex6 e b @ ''_'' @ [LF];
                     path = joinPath e outDir baseName
                 in (case writeFile e path content of
                       Some err \<Rightarrow> Inr (Inl (''write '' @ path @ '': '' @ err), w)
                     | None \<Rightarrow>
                         Inr (Inr baseName, w\<lparr>files := files w @ [(path, content)]\<rparr>)))))"

subsection \<open>All changed functions (writeAllChangedFuncFiles, lines 695-718)\<close>

text \<open>The loop of lines 705-716, over the pairs still to be written.\<close>

fun writeChangedLoop ::
  "env \<Rightarrow> string \<Rightarrow> string \<Rightarrow> string \<Rightarrow> (FuncInfo \<times> FuncInfo) list \<Rightarrow> string list \<Rightarrow>
     world \<Rightarrow> panic + (string list \<times> world)" where
  "writeChangedLoop e outDir fromRef toRef [] fs w = Inr (fs, w)"
| "writeChangedLoop e outDir fromRef toRef ((fromInfo, toInfo) # rest) fs w =
     (case writeChangedFuncFile e outDir fromRef toRef fromInfo toInfo w of
        Inl p \<Rightarrow> Inl p
      | Inr (Inl err, w') \<Rightarrow>
          writeChangedLoop e outDir fromRef toRef rest fs
            (w'\<lparr>stderr := stderr w' @
               [''Warning: failed to write changed function file: '' @ err @ [LF]]\<rparr>)
      | Inr (Inr name, w') \<Rightarrow>
          writeChangedLoop e outDir fromRef toRef rest
            (if name \<noteq> [] then fs @ [name] else fs) w')"

definition writeAllChangedFuncFiles ::
  "env \<Rightarrow> string \<Rightarrow> string \<Rightarrow> string \<Rightarrow> (FuncInfo \<times> FuncInfo) list \<Rightarrow> world \<Rightarrow>
     panic + (string list \<times> world)" where
  "writeAllChangedFuncFiles e outDir fromRef toRef changed w =
     (if outDir = [] then Inr ([], w)
      else case mkdirAll e outDir of
        Some err \<Rightarrow>
          Inr ([], w\<lparr>stderr := stderr w @
            [''Warning: failed to create out dir '' @ outDir @ '': '' @ err @ [LF]]\<rparr>)
      | None \<Rightarrow> writeChangedLoop e outDir fromRef toRef changed [] w)"

text \<open>\<^verbatim>\<open>addChangedFilesIndex\<close> (lines 720-730): the text it appends to the builder.\<close>

definition addChangedFilesIndex :: "string \<Rightarrow> string list \<Rightarrow> string" where
  "addChangedFilesIndex outDir fs =
     (if outDir = [] \<or> length fs = 0 then []
      else ''Per-function reports (Markdown files) written to '' @ quoted outDir @ '':'' @
             [LF, LF] @
           concat (map (\<lambda>f. ''- '' @ quoted (outDir @ ''/'' @ f) @ [LF]) (sort fs)) @ [LF])"

subsection \<open>The listings (printFuncListByPackage, lines 443-481)\<close>

definition funcEntry :: "FuncInfo \<Rightarrow> string" where
  "funcEntry f =
     ''  - '' @ quoted (fullName f) @ [LF] @
     ''    - signature: '' @ quoted (Signature f) @ [LF] @
     ''    - file: '' @ quoted (File f) @ '' (lines '' @ showInt (StartLine f) @ enDash @
       showInt (EndLine f) @ '', '' @ showInt (LineCount f) @ '' LOC)'' @ [LF]"

text \<open>
  The packages are printed in sorted order and the functions of a package by receiver
  and then name. \<^verbatim>\<open>sort.Slice\<close> is not stable and the sort of the model is: the two
  differ only on functions of one package with the same receiver and name, which the
  records of an inventory never are.
\<close>

definition printFuncListByPackage :: "FuncInfo list \<Rightarrow> string" where
  "printFuncListByPackage funcs =
     concat (map (\<lambda>pkg.
         ''- '' @ quoted pkg @ [LF] @
         concat (map funcEntry
           (sort_key (\<lambda>f. (Receiver f, Name f)) (filter (\<lambda>f. Package f = pkg) funcs))) @
         [LF])
       (sort (remdups (map Package funcs))))"

subsection \<open>The report (buildMarkdownReport, lines 360-441)\<close>

text \<open>Lines 366-380: the header, the summary and the head of the table.\<close>

definition summaryText :: "string \<Rightarrow> string \<Rightarrow> DiffResult \<Rightarrow> string" where
  "summaryText fromRef toRef diff =
     ''### Function Diff: '' @ quoted fromRef @ '' '' @ rightArrow @ '' '' @ quoted toRef @
       [LF, LF] @
     ''#### Summary'' @ [LF] @
     ''- Total functions in '' @ quoted fromRef @ '': '' @ showInt (FromTotal diff) @ [LF] @
     ''- Total functions in '' @ quoted toRef @ '': '' @ showInt (ToTotal diff) @ [LF] @
     [LF] @
     ''- New functions in '' @ quoted fromRef @ '' only: '' @
        showInt (int (length (NewFuncs diff))) @ [LF] @
     ''- Removed functions (only in '' @ quoted toRef @ ''): '' @
        showInt (int (length (RemovedFuncs diff))) @ [LF] @
     ''- Changed functions: '' @ showInt (int (length (ChangedFuncs diff))) @ [LF, LF] @
     ''#### High-Level Changes by Package'' @ [LF, LF] @
     ''| Package | New | Removed | Changed |'' @ [LF] @
     ''|---------|-----|---------|---------|'' @ [LF]"

text \<open>
  Lines 388-391: one row per package. \<^verbatim>\<open>diff.PkgStats[pkg]\<close> is nil for a package
  without an entry, and the read of its fields would panic.
\<close>

fun packageRows :: "PkgStatsMap \<Rightarrow> string list \<Rightarrow> panic + string" where
  "packageRows stats [] = Inr []"
| "packageRows stats (pkg # pkgs) =
     (case map_of stats pkg of
        None \<Rightarrow> Inl NilPointerDereference
      | Some s \<Rightarrow>
         (case packageRows stats pkgs of
            Inl p \<Rightarrow> Inl p
          | Inr rows \<Rightarrow>
              Inr (''| '' @ quoted pkg @ '' | '' @ showInt (New s) @ '' | '' @
                   showInt (Removed s) @ '' | '' @ showInt (Changed s) @ '' |'' @ [LF] @
                   rows)))"

text \<open>Lines 428-436: the names of the changed functions when there is no directory.\<close>

definition changedNames :: "(FuncInfo \<times> FuncInfo) list \<Rightarrow> string" where
  "changedNames changed =
     concat (map (\<lambda>(fi, ti). ''- '' @ quoted (File fi) @ '': '' @ quoted (fullName fi) @ [LF])
       changed) @ [LF]"

definition buildMarkdownReport ::
  "env \<Rightarrow> string \<Rightarrow> string \<Rightarrow> FuncSet \<Rightarrow> FuncSet \<Rightarrow> bool \<Rightarrow> string \<Rightarrow> world \<Rightarrow>
     panic + (string \<times> world)" where
  "buildMarkdownReport e fromRef toRef fromFuncs toFuncs summaryOnly outDir w =
     (let diff = diffFuncs fromFuncs toFuncs in
      case packageRows (PkgStats diff) (sort (map fst (PkgStats diff))) of
        Inl p \<Rightarrow> Inl p
      | Inr rows \<Rightarrow>
         let b = summaryText fromRef toRef diff @ rows @ [LF] in
         if summaryOnly then
           (if outDir \<noteq> [] then
              (case writeAllChangedFuncFiles e outDir fromRef toRef (ChangedFuncs diff) w of
                 Inl p \<Rightarrow> Inl p
               | Inr (fs, w') \<Rightarrow> Inr (b @ addChangedFilesIndex outDir fs, w'))
            else Inr (b, w))
         else
           let b1 = b @
                 ''#### New Functions in '' @ quoted fromRef @ '' (not in '' @ quoted toRef @
                   '')'' @ [LF, LF] @
                 (if length (NewFuncs diff) = 0 then ''_None_'' @ [LF, LF]
                  else printFuncListByPackage (NewFuncs diff)) @
                 ''#### Removed Functions (only in '' @ quoted toRef @ '')'' @ [LF, LF] @
                 (if length (RemovedFuncs diff) = 0 then ''_None_'' @ [LF, LF]
                  else printFuncListByPackage (RemovedFuncs diff)) @
                 ''#### Changed Functions'' @ [LF, LF]
           in if length (ChangedFuncs diff) = 0 then Inr (b1 @ ''_None_'' @ [LF, LF], w)
              else if outDir \<noteq> [] then
                (case writeAllChangedFuncFiles e outDir fromRef toRef (ChangedFuncs diff) w of
                   Inl p \<Rightarrow> Inl p
                 | Inr (fs, w') \<Rightarrow> Inr (b1 @ addChangedFilesIndex outDir fs, w'))
              else Inr (b1 @ changedNames (ChangedFuncs diff), w))"

section \<open>An example environment\<close>

text \<open>
  A repository in which \<^verbatim>\<open>a.go\<close> holds the function \<open>exF\<close> in two layouts: with line
  feeds at the revision \<^verbatim>\<open>dev\<close>, and with CRLF line endings and trailing blanks
  elsewhere. Every directory can be created and every file written.
\<close>

definition exSrcLF :: string where
  "exSrcLF = ''func F(x int) {'' @ [LF] @ ''  return'' @ [LF] @ ''}'' @ [LF]"

definition exSrcCRLF :: string where
  "exSrcCRLF = ''func F(x int) {  '' @ [CR, LF] @ ''  return'' @ [TAB, CR, LF] @ ''}'' @ [CR, LF]"

definition exEnv :: env where
  "exEnv =
     \<lparr>gitShowFile = (\<lambda>ref path.
         if path = ''a.go'' then Some (if ref = ''dev'' then exSrcLF else exSrcCRLF)
         else if path = ''blank.go'' then Some [LF, LF, LF]
         else None),
      mkdirAll = (\<lambda>dir. None),
      writeFile = (\<lambda>path content. None),
      joinPath = (\<lambda>dir name. dir @ ''/'' @ name),
      sha1Hex6 = (\<lambda>text. ''0123456789ab'')\<rparr>"

definition exWorld :: world where
  "exWorld = \<lparr>files = [], stderr = []\<rparr>"

text \<open>
  Two functions of different files and packages whose file names differ in a slash
  against an underscore, and a pair of records whose line ranges hold blank lines only.
\<close>

definition exSlash :: FuncInfo where
  "exSlash = \<lparr>Package = ''a/main'', File = ''a/b.go'', Name = ''F'', Receiver = [],
              Signature = ''()'', Exported = True, StartLine = 1, EndLine = 3,
              LineCount = 3\<rparr>"

definition exUnderscore :: FuncInfo where
  "exUnderscore = \<lparr>Package = ''main'', File = ''a_b.go'', Name = ''F'', Receiver = [],
              Signature = ''()'', Exported = True, StartLine = 1, EndLine = 3,
              LineCount = 3\<rparr>"

text \<open>
  One diff in which both functions change their signature, and a function \<^verbatim>\<open>F\<close> of
  the file \<^verbatim>\<open>identical/a.go\<close>, which the example repository cannot show.
\<close>

definition exCollFrom :: FuncSet where
  "exCollFrom = [(funcKey exSlash, exSlash), (funcKey exUnderscore, exUnderscore)]"

definition exCollTo :: FuncSet where
  "exCollTo = map (\<lambda>(key, info). (key, info\<lparr>Signature := ''(x int)''\<rparr>)) exCollFrom"

definition exInDir :: FuncInfo where
  "exInDir = \<lparr>Package = ''identical/a'', File = ''identical/a.go'', Name = ''F'',
              Receiver = [], Signature = ''()'', Exported = True, StartLine = 1,
              EndLine = 3, LineCount = 3\<rparr>"

definition exBlankFrom :: FuncInfo where
  "exBlankFrom = \<lparr>Package = ''a'', File = ''blank.go'', Name = ''B'', Receiver = [],
              Signature = ''()'', Exported = True, StartLine = 1, EndLine = 2,
              LineCount = 2\<rparr>"

definition exBlankTo :: FuncInfo where
  "exBlankTo = exBlankFrom\<lparr>StartLine := 2, EndLine := 3\<rparr>"

section \<open>Properties of the diff engine\<close>

lemmas ex_defs = exF_def exF'_def exM_def exG_def exR_def exFrom_def exTo_def funcKey_def

subsection \<open>Inventories\<close>

lemma inv_key: "inventory fs \<Longrightarrow> (k, v) \<in> set fs \<Longrightarrow> k = funcKey v"
  by (auto simp: inventory_def list_all_iff)

lemma inv_distinct: "inventory fs \<Longrightarrow> distinct (map fst fs)"
  by (simp add: inventory_def)

lemma inventory_Nil: "inventory []"
  by (simp add: inventory_def)

lemma inventory_insertFunc: "inventory funcs \<Longrightarrow> inventory (insertFunc funcs info)"
proof -
  have "list_all (\<lambda>(key, info). key = funcKey info) fs \<Longrightarrow>
        list_all (\<lambda>(key, info). key = funcKey info) (AList.update (funcKey info) info fs)"
    for fs
    by (induction fs) auto
  then show "inventory funcs \<Longrightarrow> inventory (insertFunc funcs info)"
    by (simp add: inventory_def insertFunc_def distinct_update)
qed

text \<open>Every map that \<^verbatim>\<open>collectFuncs\<close> can build is an inventory.\<close>

lemma inventory_collect: "inventory (foldl insertFunc [] infos)"
proof -
  have "inventory funcs \<Longrightarrow> inventory (foldl insertFunc funcs infos)" for funcs
    by (induction infos arbitrary: funcs) (simp_all add: inventory_insertFunc)
  then show ?thesis by (simp add: inventory_Nil)
qed

lemma map_of_None_iff: "map_of xs k = None \<longleftrightarrow> k \<notin> fst ` set xs"
  by (simp add: map_of_eq_None_iff)

subsection \<open>The loops compute their closed forms\<close>

lemma onlyIn_simps [simp]:
  "onlyIn [] t = []"
  "onlyIn ((k, v) # xs) t = (if map_of t k = None then v # onlyIn xs t else onlyIn xs t)"
  by (simp_all add: onlyIn_def)

lemma changedIn_simps [simp]:
  "changedIn [] t = []"
  "changedIn ((k, v) # xs) t =
     (case map_of t k of None \<Rightarrow> changedIn xs t
      | Some w \<Rightarrow> if differs v w then (v, w) # changedIn xs t else changedIn xs t)"
  by (simp_all add: changedIn_def split: option.splits)

lemma set_onlyIn: "set (onlyIn xs ys) = {v. \<exists>k. (k, v) \<in> set xs \<and> map_of ys k = None}"
  by (auto simp: onlyIn_def image_iff)

lemma set_changedIn:
  "set (changedIn xs ys) =
     {(v, w). \<exists>k. (k, v) \<in> set xs \<and> map_of ys k = Some w \<and> differs v w}"
  by (auto simp: changedIn_def split: option.splits if_splits)

lemma set_unchangedKeys:
  "set (unchangedKeys xs ys) =
     {k. \<exists>v w. (k, v) \<in> set xs \<and> map_of ys k = Some w \<and> \<not> differs v w}"
  by (auto simp: unchangedKeys_def differs_def image_iff split: option.splits)

lemma newAndChanged_New: "NewFuncs (newAndChanged t xs r) = NewFuncs r @ onlyIn xs t"
  by (induction xs arbitrary: r) (auto split: option.splits)

lemma newAndChanged_Changed:
  "ChangedFuncs (newAndChanged t xs r) = ChangedFuncs r @ changedIn xs t"
  by (induction xs arbitrary: r) (auto split: option.splits)

lemma newAndChanged_Removed: "RemovedFuncs (newAndChanged t xs r) = RemovedFuncs r"
  by (induction xs arbitrary: r) (auto split: option.splits)

lemma newAndChanged_totals:
  "FromTotal (newAndChanged t xs r) = FromTotal r"
  "ToTotal (newAndChanged t xs r) = ToTotal r"
  by (induction xs arbitrary: r) (auto split: option.splits)

lemma removed_Removed: "RemovedFuncs (removed f ys r) = RemovedFuncs r @ onlyIn ys f"
  by (induction ys arbitrary: r) (auto split: option.splits)

lemma removed_others:
  "NewFuncs (removed f ys r) = NewFuncs r"
  "ChangedFuncs (removed f ys r) = ChangedFuncs r"
  "FromTotal (removed f ys r) = FromTotal r"
  "ToTotal (removed f ys r) = ToTotal r"
  by (induction ys arbitrary: r) (auto split: option.splits)

lemma diffFuncs_New: "NewFuncs (diffFuncs f t) = onlyIn f t"
  by (simp add: diffFuncs_def removed_others newAndChanged_New)

lemma diffFuncs_Removed: "RemovedFuncs (diffFuncs f t) = onlyIn t f"
  by (simp add: diffFuncs_def removed_Removed newAndChanged_Removed)

lemma diffFuncs_Changed: "ChangedFuncs (diffFuncs f t) = changedIn f t"
  by (simp add: diffFuncs_def removed_others newAndChanged_Changed)

lemma diffFuncs_totals:
  "FromTotal (diffFuncs f t) = int (length f)" "ToTotal (diffFuncs f t) = int (length t)"
  by (simp_all add: diffFuncs_def removed_others newAndChanged_totals)

lemma diffFuncs_sides:
  "set (NewFuncs (diffFuncs f t)) \<subseteq> snd ` set f"
  "set (RemovedFuncs (diffFuncs f t)) \<subseteq> snd ` set t"
  "fst ` set (ChangedFuncs (diffFuncs f t)) \<subseteq> snd ` set f"
  "snd ` set (ChangedFuncs (diffFuncs f t)) \<subseteq> snd ` set t"
  by (force simp: diffFuncs_New diffFuncs_Removed diffFuncs_Changed set_onlyIn set_changedIn
      dest: map_of_SomeD)+

lemma ex_diff:
  "diffFuncs exFrom exTo =
    \<lparr>NewFuncs = [exM], RemovedFuncs = [exR], ChangedFuncs = [(exF, exF')],
     FromTotal = 3, ToTotal = 3,
     PkgStats = [(''a'', \<lparr>New = 0, Removed = 0, Changed = 1\<rparr>),
                 (''b'', \<lparr>New = 1, Removed = 0, Changed = 0\<rparr>),
                 (''c'', \<lparr>New = 0, Removed = 1, Changed = 0\<rparr>)]\<rparr>"
  by code_simp

lemma ex_inventory: "inventory exFrom" "inventory exTo"
  by (simp_all add: inventory_def ex_defs)

subsection \<open>Classification of the entries of the from side\<close>

text \<open>
  Claim C1. Take two inventories and an entry \<open>(key, fromInfo)\<close> of the from side. If
  the to side has no entry for the key, the record is in \<^verbatim>\<open>NewFuncs\<close>. If it has the
  entry \<open>toInfo\<close> and one of signature, file, start line, end line differs, the pair
  \<open>(fromInfo, toInfo)\<close> is in \<^verbatim>\<open>ChangedFuncs\<close>. If the four fields are equal, no record
  of \<^verbatim>\<open>NewFuncs\<close> or \<^verbatim>\<open>RemovedFuncs\<close> and neither side of a pair of \<^verbatim>\<open>ChangedFuncs\<close> has
  this key.
\<close>

theorem diffFuncs_classifies_from_entries:
  assumes "inventory fromFuncs" and "inventory toFuncs" and "(key, fromInfo) \<in> set fromFuncs"
  shows "(map_of toFuncs key = None \<longrightarrow>
            fromInfo \<in> set (NewFuncs (diffFuncs fromFuncs toFuncs))) \<and>
    (\<forall>toInfo. map_of toFuncs key = Some toInfo \<and>
        (Signature fromInfo \<noteq> Signature toInfo \<or> File fromInfo \<noteq> File toInfo \<or>
         StartLine fromInfo \<noteq> StartLine toInfo \<or> EndLine fromInfo \<noteq> EndLine toInfo) \<longrightarrow>
        (fromInfo, toInfo) \<in> set (ChangedFuncs (diffFuncs fromFuncs toFuncs))) \<and>
    (\<forall>toInfo. map_of toFuncs key = Some toInfo \<and>
        Signature fromInfo = Signature toInfo \<and> File fromInfo = File toInfo \<and>
        StartLine fromInfo = StartLine toInfo \<and> EndLine fromInfo = EndLine toInfo \<longrightarrow>
        key \<notin> funcKey ` set (NewFuncs (diffFuncs fromFuncs toFuncs)) \<and>
        key \<notin> funcKey ` set (RemovedFuncs (diffFuncs fromFuncs toFuncs)) \<and>
        key \<notin> (funcKey \<circ> fst) ` set (ChangedFuncs (diffFuncs fromFuncs toFuncs)) \<and>
        key \<notin> (funcKey \<circ> snd) ` set (ChangedFuncs (diffFuncs fromFuncs toFuncs)))"
proof (intro conjI allI impI)
  assume "map_of toFuncs key = None"
  with assms(3) show "fromInfo \<in> set (NewFuncs (diffFuncs fromFuncs toFuncs))"
    by (auto simp: diffFuncs_New set_onlyIn)
next
  fix toInfo
  assume "map_of toFuncs key = Some toInfo \<and>
        (Signature fromInfo \<noteq> Signature toInfo \<or> File fromInfo \<noteq> File toInfo \<or>
         StartLine fromInfo \<noteq> StartLine toInfo \<or> EndLine fromInfo \<noteq> EndLine toInfo)"
  with assms(3) show "(fromInfo, toInfo) \<in> set (ChangedFuncs (diffFuncs fromFuncs toFuncs))"
    by (auto simp: diffFuncs_Changed set_changedIn differs_def)
next
  fix toInfo
  assume h: "map_of toFuncs key = Some toInfo \<and>
        Signature fromInfo = Signature toInfo \<and> File fromInfo = File toInfo \<and>
        StartLine fromInfo = StartLine toInfo \<and> EndLine fromInfo = EndLine toInfo"
  have nd: "\<not> differs fromInfo toInfo" using h by (simp add: differs_def)
  have kf: "map_of fromFuncs key = Some fromInfo"
    using assms(1,3) by (simp add: inv_distinct)
  show "key \<notin> funcKey ` set (NewFuncs (diffFuncs fromFuncs toFuncs))"
    using h assms(1) by (auto simp: diffFuncs_New set_onlyIn dest: inv_key)
  show "key \<notin> funcKey ` set (RemovedFuncs (diffFuncs fromFuncs toFuncs))"
    using kf assms(2) by (auto simp: diffFuncs_Removed set_onlyIn dest: inv_key)
  show "key \<notin> (funcKey \<circ> fst) ` set (ChangedFuncs (diffFuncs fromFuncs toFuncs))"
  proof
    assume "key \<in> (funcKey \<circ> fst) ` set (ChangedFuncs (diffFuncs fromFuncs toFuncs))"
    then obtain v w k where *: "(k, v) \<in> set fromFuncs" "map_of toFuncs k = Some w"
        "differs v w" "key = funcKey v"
      by (auto simp: diffFuncs_Changed set_changedIn)
    then have "k = key" using assms(1) by (auto dest: inv_key)
    with * kf h nd assms(1) show False by (auto simp: inv_distinct)
  qed
  show "key \<notin> (funcKey \<circ> snd) ` set (ChangedFuncs (diffFuncs fromFuncs toFuncs))"
  proof
    assume "key \<in> (funcKey \<circ> snd) ` set (ChangedFuncs (diffFuncs fromFuncs toFuncs))"
    then obtain v w k where *: "(k, v) \<in> set fromFuncs" "map_of toFuncs k = Some w"
        "differs v w" "key = funcKey w"
      by (auto simp: diffFuncs_Changed set_changedIn)
    then have "(k, w) \<in> set toFuncs" by (auto dest: map_of_SomeD)
    then have "k = key" using assms(2) * by (auto dest: inv_key)
    with * kf h nd assms(1) show False by (auto simp: inv_distinct)
  qed
qed

theorem diffFuncs_classifies_from_entries_witness:
  "inventory exFrom \<and> inventory exTo \<and>
   (funcKey exM, exM) \<in> set exFrom \<and> map_of exTo (funcKey exM) = None \<and>
   exM \<in> set (NewFuncs (diffFuncs exFrom exTo)) \<and>
   (funcKey exF, exF) \<in> set exFrom \<and> map_of exTo (funcKey exF) = Some exF' \<and>
   Signature exF \<noteq> Signature exF' \<and>
   (exF, exF') \<in> set (ChangedFuncs (diffFuncs exFrom exTo)) \<and>
   (funcKey exG, exG) \<in> set exFrom \<and> map_of exTo (funcKey exG) = Some exG \<and>
   funcKey exG \<notin> funcKey ` set (NewFuncs (diffFuncs exFrom exTo)) \<and>
   funcKey exG \<notin> funcKey ` set (RemovedFuncs (diffFuncs exFrom exTo)) \<and>
   funcKey exG \<notin> (funcKey \<circ> fst) ` set (ChangedFuncs (diffFuncs exFrom exTo)) \<and>
   funcKey exG \<notin> (funcKey \<circ> snd) ` set (ChangedFuncs (diffFuncs exFrom exTo))"
proof -
  note i = ex_inventory
  have m: "(funcKey exM, exM) \<in> set exFrom" "map_of exTo (funcKey exM) = None"
    by (simp_all add: ex_defs)
  have f: "(funcKey exF, exF) \<in> set exFrom" "map_of exTo (funcKey exF) = Some exF'"
      "Signature exF \<noteq> Signature exF'"
    by (simp_all add: ex_defs)
  have g: "(funcKey exG, exG) \<in> set exFrom" "map_of exTo (funcKey exG) = Some exG"
    by (simp_all add: ex_defs)
  show ?thesis
    using i m f g diffFuncs_classifies_from_entries [OF i m(1)]
      diffFuncs_classifies_from_entries [OF i f(1)]
      diffFuncs_classifies_from_entries [OF i g(1)]
    by blast
qed

subsection \<open>The four classes partition the keys\<close>

text \<open>
  Claim C2. For two inventories, the key sets of \<^verbatim>\<open>NewFuncs\<close>, \<^verbatim>\<open>RemovedFuncs\<close> and
  \<^verbatim>\<open>ChangedFuncs\<close> and the set of unchanged keys are pairwise disjoint, and their union
  is the union of the key sets of the two inventories: every key falls into exactly one
  of the four classes.
\<close>

theorem diffFuncs_partitions_keys:
  assumes "inventory fromFuncs" and "inventory toFuncs"
  shows "let r = diffFuncs fromFuncs toFuncs;
             newKeys = funcKey ` set (NewFuncs r);
             removedKeys = funcKey ` set (RemovedFuncs r);
             changedKeys = (funcKey \<circ> fst) ` set (ChangedFuncs r);
             unchanged = set (unchangedKeys fromFuncs toFuncs)
         in newKeys \<inter> removedKeys = {} \<and> newKeys \<inter> changedKeys = {} \<and>
            removedKeys \<inter> changedKeys = {} \<and> unchanged \<inter> newKeys = {} \<and>
            unchanged \<inter> removedKeys = {} \<and> unchanged \<inter> changedKeys = {} \<and>
            newKeys \<union> removedKeys \<union> changedKeys \<union> unchanged =
              fst ` set fromFuncs \<union> fst ` set toFuncs"
proof -
  have kf: "\<And>k v. (k, v) \<in> set fromFuncs \<Longrightarrow>
      funcKey v = k \<and> map_of fromFuncs k = Some v"
    using assms(1) by (auto dest: inv_key simp: inv_distinct)
  have kt: "\<And>k v. (k, v) \<in> set toFuncs \<Longrightarrow> funcKey v = k \<and> map_of toFuncs k = Some v"
    using assms(2) by (auto dest: inv_key simp: inv_distinct)
  have n: "funcKey ` set (NewFuncs (diffFuncs fromFuncs toFuncs)) =
      {k. (\<exists>v. map_of fromFuncs k = Some v) \<and> map_of toFuncs k = None}"
    using kf by (force simp: diffFuncs_New set_onlyIn image_iff dest: map_of_SomeD)
  have r: "funcKey ` set (RemovedFuncs (diffFuncs fromFuncs toFuncs)) =
      {k. (\<exists>v. map_of toFuncs k = Some v) \<and> map_of fromFuncs k = None}"
    using kt by (force simp: diffFuncs_Removed set_onlyIn image_iff dest: map_of_SomeD)
  have c: "(funcKey \<circ> fst) ` set (ChangedFuncs (diffFuncs fromFuncs toFuncs)) =
      {k. \<exists>v w. map_of fromFuncs k = Some v \<and> map_of toFuncs k = Some w \<and> differs v w}"
    using kf by (force simp: diffFuncs_Changed set_changedIn image_iff dest: map_of_SomeD)
  have u: "set (unchangedKeys fromFuncs toFuncs) =
      {k. \<exists>v w. map_of fromFuncs k = Some v \<and> map_of toFuncs k = Some w \<and> \<not> differs v w}"
    using kf by (force simp: set_unchangedKeys dest: map_of_SomeD)
  have d: "fst ` set fromFuncs = {k. \<exists>v. map_of fromFuncs k = Some v}"
       "fst ` set toFuncs = {k. \<exists>v. map_of toFuncs k = Some v}"
    by (auto simp: dom_map_of_conv_image_fst [symmetric])
  show ?thesis
    unfolding Let_def n r c u d by auto
qed

theorem diffFuncs_partitions_keys_witness:
  "inventory exFrom \<and> inventory exTo \<and>
   funcKey ` set (NewFuncs (diffFuncs exFrom exTo)) = {funcKey exM} \<and>
   funcKey ` set (RemovedFuncs (diffFuncs exFrom exTo)) = {funcKey exR} \<and>
   (funcKey \<circ> fst) ` set (ChangedFuncs (diffFuncs exFrom exTo)) = {funcKey exF} \<and>
   set (unchangedKeys exFrom exTo) = {funcKey exG} \<and>
   {funcKey exM} \<union> {funcKey exR} \<union> {funcKey exF} \<union> {funcKey exG} =
     fst ` set exFrom \<union> fst ` set exTo"
proof -
  note i = ex_inventory
  have u: "unchangedKeys exFrom exTo = [funcKey exG]" by code_simp
  have s: "funcKey ` set (NewFuncs (diffFuncs exFrom exTo)) = {funcKey exM}"
    "funcKey ` set (RemovedFuncs (diffFuncs exFrom exTo)) = {funcKey exR}"
    "(funcKey \<circ> fst) ` set (ChangedFuncs (diffFuncs exFrom exTo)) = {funcKey exF}"
    "set (unchangedKeys exFrom exTo) = {funcKey exG}"
    by (simp_all add: ex_diff u)
  show ?thesis using i s diffFuncs_partitions_keys [OF i] unfolding Let_def by simp
qed

subsection \<open>Symmetry and the diff of an inventory with itself\<close>

text \<open>
  Claim C5. The keys of the new declarations of \<open>diff(from, to)\<close> are the keys of the
  removed declarations of \<open>diff(to, from)\<close>. The two calls may range over each map in a
  different order: \<open>fromFuncs'\<close> and \<open>toFuncs'\<close> list the same entries as \<open>fromFuncs\<close> and
  \<open>toFuncs\<close>.
\<close>

theorem diffFuncs_new_removed_symmetric:
  assumes "set fromFuncs' = set fromFuncs" and "set toFuncs' = set toFuncs"
  shows "funcKey ` set (NewFuncs (diffFuncs fromFuncs toFuncs)) =
         funcKey ` set (RemovedFuncs (diffFuncs toFuncs' fromFuncs'))"
proof -
  have "set (onlyIn fromFuncs toFuncs) = set (onlyIn fromFuncs' toFuncs')"
    using assms by (simp add: set_onlyIn map_of_None_iff)
  then show ?thesis by (simp add: diffFuncs_New diffFuncs_Removed)
qed

theorem diffFuncs_new_removed_symmetric_witness:
  "set (rev exFrom) = set exFrom \<and> set (rev exTo) = set exTo \<and>
   funcKey ` set (NewFuncs (diffFuncs exFrom exTo)) = {funcKey exM} \<and>
   funcKey ` set (RemovedFuncs (diffFuncs (rev exTo) (rev exFrom))) = {funcKey exM}"
proof -
  have s: "funcKey ` set (NewFuncs (diffFuncs exFrom exTo)) = {funcKey exM}"
    by (simp add: ex_diff)
  show ?thesis
    using s diffFuncs_new_removed_symmetric [of "rev exFrom" exFrom "rev exTo" exTo] by simp
qed

lemma onlyIn_same: "set ys = set xs \<Longrightarrow> onlyIn xs ys = []"
  by (auto simp: onlyIn_def filter_empty_conv map_of_None_iff image_iff)

lemma changedIn_same: "distinct (map fst ys) \<Longrightarrow> set ys = set xs \<Longrightarrow> changedIn xs ys = []"
  by (auto simp: changedIn_def differs_def split: option.splits)

lemma newAndChanged_stats_same:
  "onlyIn xs t = [] \<Longrightarrow> changedIn xs t = [] \<Longrightarrow> PkgStats (newAndChanged t xs r) = PkgStats r"
  by (induction xs arbitrary: r) (auto split: option.splits if_splits)

lemma removed_stats_same: "onlyIn ys f = [] \<Longrightarrow> PkgStats (removed f ys r) = PkgStats r"
  by (induction ys arbitrary: r) (auto split: option.splits if_splits)

lemma diffFuncs_same_stats:
  assumes "distinct (map fst X')" and "set X' = set X"
  shows "PkgStats (diffFuncs X X') = []"
proof -
  have "onlyIn X X' = []" "changedIn X X' = []" "onlyIn X' X = []"
    using assms by (simp_all add: onlyIn_same changedIn_same)
  then show ?thesis
    by (simp add: diffFuncs_def removed_stats_same newAndChanged_stats_same)
qed

text \<open>
  Claim C6. Diffing an inventory with itself yields no new, no removed and no changed
  declaration (and no package counter). \<open>X\<close> and \<open>X'\<close> are the orders in which the two
  loops range over the one map.
\<close>

theorem diffFuncs_same_inventory_empty:
  assumes "distinct (map fst X)" and "distinct (map fst X')" and "set X' = set X"
  shows "NewFuncs (diffFuncs X X') = [] \<and> RemovedFuncs (diffFuncs X X') = [] \<and>
         ChangedFuncs (diffFuncs X X') = [] \<and> PkgStats (diffFuncs X X') = []"
  using assms
  by (simp add: diffFuncs_New diffFuncs_Removed diffFuncs_Changed onlyIn_same changedIn_same
      diffFuncs_same_stats)

theorem diffFuncs_same_inventory_empty_witness:
  "distinct (map fst exFrom) \<and> distinct (map fst (rev exFrom)) \<and>
   set (rev exFrom) = set exFrom \<and>
   diffFuncs exFrom (rev exFrom) =
     \<lparr>NewFuncs = [], RemovedFuncs = [], ChangedFuncs = [], FromTotal = 3, ToTotal = 3,
      PkgStats = []\<rparr>"
proof -
  have d: "distinct (map fst exFrom)" "distinct (map fst (rev exFrom))"
    by (simp_all add: ex_defs)
  have t: "FromTotal (diffFuncs exFrom (rev exFrom)) = 3"
      "ToTotal (diffFuncs exFrom (rev exFrom)) = 3"
    by (simp_all add: diffFuncs_totals exFrom_def)
  show ?thesis
    using d t diffFuncs_same_inventory_empty [OF d]
    by (cases "diffFuncs exFrom (rev exFrom)") simp
qed

subsection \<open>The per-package counters\<close>

lemma update_absent:
  "map_of al k = None \<Longrightarrow> AList.update k v (al @ [(k, w)]) = AList.update k v al"
  by (induction al) (auto split: if_splits)

lemma incNew_eq:
  "incNew pkg stats =
     AList.update pkg ((statsOf stats pkg)\<lparr>New := New (statsOf stats pkg) + 1\<rparr>) stats"
  by (simp add: incNew_def getStats_def statsOf_def update_absent split: option.split)

lemma incChanged_eq:
  "incChanged pkg stats =
     AList.update pkg ((statsOf stats pkg)\<lparr>Changed := Changed (statsOf stats pkg) + 1\<rparr>) stats"
  by (simp add: incChanged_def getStats_def statsOf_def update_absent split: option.split)

lemma incRemoved_eq:
  "incRemoved pkg stats =
     AList.update pkg ((statsOf stats pkg)\<lparr>Removed := Removed (statsOf stats pkg) + 1\<rparr>) stats"
  by (simp add: incRemoved_def getStats_def statsOf_def update_absent split: option.split)

lemmas inc_eqs = incNew_eq incChanged_eq incRemoved_eq

lemma statsOf_update: "statsOf (AList.update k v al) p = (if p = k then v else statsOf al p)"
  by (simp add: statsOf_def update_conv')

lemma statsOf_Nil [simp]: "statsOf [] p = zeroStats"
  by (simp add: statsOf_def)

lemma statsOf_Some: "map_of stats p = Some s \<Longrightarrow> statsOf stats p = s"
  by (simp add: statsOf_def)

lemma zeroStats_sel [simp]: "New zeroStats = 0" "Removed zeroStats = 0" "Changed zeroStats = 0"
  by (simp_all add: zeroStats_def)

lemma sum_update:
  fixes g :: "PackageStats \<Rightarrow> int"
  assumes "g zeroStats = 0"
  shows "sum_list (map (g \<circ> snd) (AList.update k v al)) =
         sum_list (map (g \<circ> snd) al) + g v - g (statsOf al k)"
  using assms by (induction al) (auto simp: statsOf_def)

lemma nc_stats_New:
  "New (statsOf (PkgStats (newAndChanged t xs r)) p) =
   New (statsOf (PkgStats r) p) + int (length (filter (\<lambda>i. Package i = p) (onlyIn xs t)))"
  by (induction xs arbitrary: r) (auto simp: inc_eqs statsOf_update split: option.splits)

lemma nc_stats_Changed:
  "Changed (statsOf (PkgStats (newAndChanged t xs r)) p) =
   Changed (statsOf (PkgStats r) p) +
     int (length (filter (\<lambda>(a, b). Package a = p) (changedIn xs t)))"
  by (induction xs arbitrary: r) (auto simp: inc_eqs statsOf_update split: option.splits)

lemma nc_stats_Removed:
  "Removed (statsOf (PkgStats (newAndChanged t xs r)) p) = Removed (statsOf (PkgStats r) p)"
  by (induction xs arbitrary: r) (auto simp: inc_eqs statsOf_update split: option.splits)

lemma rm_stats_Removed:
  "Removed (statsOf (PkgStats (removed f ys r)) p) =
   Removed (statsOf (PkgStats r) p) + int (length (filter (\<lambda>i. Package i = p) (onlyIn ys f)))"
  by (induction ys arbitrary: r) (auto simp: inc_eqs statsOf_update split: option.splits)

lemma rm_stats_others:
  "New (statsOf (PkgStats (removed f ys r)) p) = New (statsOf (PkgStats r) p)"
  "Changed (statsOf (PkgStats (removed f ys r)) p) = Changed (statsOf (PkgStats r) p)"
  by (induction ys arbitrary: r) (auto simp: inc_eqs statsOf_update split: option.splits)

lemma nc_stats_keys:
  "fst ` set (PkgStats (newAndChanged t xs r)) =
   fst ` set (PkgStats r) \<union> Package ` set (onlyIn xs t) \<union>
     (Package \<circ> fst) ` set (changedIn xs t)"
proof (induction xs arbitrary: r)
  case Nil
  show ?case by simp
next
  case (Cons x xs)
  obtain k v where x: "x = (k, v)" by (cases x)
  show ?case
    unfolding x
    by (cases "map_of t k") (simp_all add: Cons.IH inc_eqs dom_update Un_ac insert_commute)
qed

lemma rm_stats_keys:
  "fst ` set (PkgStats (removed f ys r)) = fst ` set (PkgStats r) \<union> Package ` set (onlyIn ys f)"
proof (induction ys arbitrary: r)
  case Nil
  show ?case by simp
next
  case (Cons x xs)
  obtain k v where x: "x = (k, v)" by (cases x)
  show ?case
    unfolding x
    by (cases "map_of f k") (simp_all add: Cons.IH inc_eqs dom_update Un_ac insert_commute)
qed

lemma nc_stats_distinct:
  "distinct (map fst (PkgStats r)) \<Longrightarrow> distinct (map fst (PkgStats (newAndChanged t xs r)))"
  by (induction xs arbitrary: r) (auto simp: inc_eqs distinct_update split: option.splits)

lemma rm_stats_distinct:
  "distinct (map fst (PkgStats r)) \<Longrightarrow> distinct (map fst (PkgStats (removed f ys r)))"
  by (induction ys arbitrary: r) (auto simp: inc_eqs distinct_update split: option.splits)

lemma nc_sum_New:
  "sum_list (map (New \<circ> snd) (PkgStats (newAndChanged t xs r))) =
   sum_list (map (New \<circ> snd) (PkgStats r)) + int (length (onlyIn xs t))"
  by (induction xs arbitrary: r) (auto simp: inc_eqs sum_update split: option.splits)

lemma nc_sum_Changed:
  "sum_list (map (Changed \<circ> snd) (PkgStats (newAndChanged t xs r))) =
   sum_list (map (Changed \<circ> snd) (PkgStats r)) + int (length (changedIn xs t))"
  by (induction xs arbitrary: r) (auto simp: inc_eqs sum_update split: option.splits)

lemma nc_sum_Removed:
  "sum_list (map (Removed \<circ> snd) (PkgStats (newAndChanged t xs r))) =
   sum_list (map (Removed \<circ> snd) (PkgStats r))"
  by (induction xs arbitrary: r) (auto simp: inc_eqs sum_update split: option.splits)

lemma rm_sum_Removed:
  "sum_list (map (Removed \<circ> snd) (PkgStats (removed f ys r))) =
   sum_list (map (Removed \<circ> snd) (PkgStats r)) + int (length (onlyIn ys f))"
  by (induction ys arbitrary: r) (auto simp: inc_eqs sum_update split: option.splits)

lemma rm_sum_others:
  "sum_list (map (New \<circ> snd) (PkgStats (removed f ys r))) =
   sum_list (map (New \<circ> snd) (PkgStats r))"
  "sum_list (map (Changed \<circ> snd) (PkgStats (removed f ys r))) =
   sum_list (map (Changed \<circ> snd) (PkgStats r))"
  by (induction ys arbitrary: r) (auto simp: inc_eqs sum_update split: option.splits)

lemma diffFuncs_stats:
  "New (statsOf (PkgStats (diffFuncs f t)) p) =
     int (length (filter (\<lambda>i. Package i = p) (NewFuncs (diffFuncs f t))))"
  "Changed (statsOf (PkgStats (diffFuncs f t)) p) =
     int (length (filter (\<lambda>(a, b). Package a = p) (ChangedFuncs (diffFuncs f t))))"
  "Removed (statsOf (PkgStats (diffFuncs f t)) p) =
     int (length (filter (\<lambda>i. Package i = p) (RemovedFuncs (diffFuncs f t))))"
  unfolding diffFuncs_New diffFuncs_Changed diffFuncs_Removed
  by (simp_all add: diffFuncs_def rm_stats_others rm_stats_Removed nc_stats_New
      nc_stats_Changed nc_stats_Removed)

lemma diffFuncs_stats_keys:
  "fst ` set (PkgStats (diffFuncs f t)) =
     Package ` set (NewFuncs (diffFuncs f t)) \<union>
     (Package \<circ> fst) ` set (ChangedFuncs (diffFuncs f t)) \<union>
     Package ` set (RemovedFuncs (diffFuncs f t))"
  unfolding diffFuncs_New diffFuncs_Changed diffFuncs_Removed
  by (simp add: diffFuncs_def rm_stats_keys nc_stats_keys)

lemma diffFuncs_stats_distinct: "distinct (map fst (PkgStats (diffFuncs f t)))"
  by (simp add: diffFuncs_def rm_stats_distinct nc_stats_distinct)

lemma diffFuncs_sums:
  "sum_list (map (New \<circ> snd) (PkgStats (diffFuncs f t))) = int (length (NewFuncs (diffFuncs f t)))"
  "sum_list (map (Changed \<circ> snd) (PkgStats (diffFuncs f t))) =
     int (length (ChangedFuncs (diffFuncs f t)))"
  "sum_list (map (Removed \<circ> snd) (PkgStats (diffFuncs f t))) =
     int (length (RemovedFuncs (diffFuncs f t)))"
  unfolding diffFuncs_New diffFuncs_Changed diffFuncs_Removed
  by (simp_all add: diffFuncs_def rm_sum_others rm_sum_Removed nc_sum_New nc_sum_Changed
      nc_sum_Removed)

lemma count_onlyIn:
  "length (filter (\<lambda>i. Package i = p) (onlyIn xs t)) =
   length (filter (\<lambda>(key, info). Package info = p \<and> map_of t key = None) xs)"
proof (induction xs)
  case Nil
  show ?case by simp
next
  case (Cons x xs)
  obtain k v where x: "x = (k, v)" by (cases x)
  show ?case unfolding x using Cons.IH by (cases "map_of t k") simp_all
qed

lemma count_changedIn:
  "length (filter (\<lambda>(a, b). Package a = p) (changedIn xs t)) =
   length (filter (\<lambda>(key, info). Package info = p \<and>
      (case map_of t key of None \<Rightarrow> False | Some toInfo \<Rightarrow> differs info toInfo)) xs)"
proof (induction xs)
  case Nil
  show ?case by simp
next
  case (Cons x xs)
  obtain k v where x: "x = (k, v)" by (cases x)
  show ?case unfolding x using Cons.IH by (cases "map_of t k") simp_all
qed

lemma length_onlyIn:
  "length (onlyIn xs t) = length (filter (\<lambda>(key, info). map_of t key = None) xs)"
  by (simp add: onlyIn_def)

lemma length_changedIn:
  "length (changedIn xs t) =
   length (filter (\<lambda>(key, info).
      case map_of t key of None \<Rightarrow> False | Some toInfo \<Rightarrow> differs info toInfo) xs)"
proof (induction xs)
  case Nil
  show ?case by simp
next
  case (Cons x xs)
  obtain k v where x: "x = (k, v)" by (cases x)
  show ?case unfolding x using Cons.IH by (cases "map_of t k") simp_all
qed

lemma diffFuncs_stats_inv:
  "New (statsOf (PkgStats (diffFuncs f t)) p) =
     int (length (filter (\<lambda>(key, info). Package info = p \<and> map_of t key = None) f))"
  "Changed (statsOf (PkgStats (diffFuncs f t)) p) =
     int (length (filter (\<lambda>(key, info). Package info = p \<and>
        (case map_of t key of None \<Rightarrow> False | Some toInfo \<Rightarrow> differs info toInfo)) f))"
  "Removed (statsOf (PkgStats (diffFuncs f t)) p) =
     int (length (filter (\<lambda>(key, info). Package info = p \<and> map_of f key = None) t))"
  by (simp_all add: diffFuncs_stats diffFuncs_New diffFuncs_Changed diffFuncs_Removed
      count_onlyIn count_changedIn)

lemma diffFuncs_stats_dom:
  "(p \<in> fst ` set (PkgStats (diffFuncs f t))) =
     (0 < length (filter (\<lambda>(key, info). Package info = p \<and> map_of t key = None) f) \<or>
      0 < length (filter (\<lambda>(key, info). Package info = p \<and>
        (case map_of t key of None \<Rightarrow> False | Some toInfo \<Rightarrow> differs info toInfo)) f) \<or>
      0 < length (filter (\<lambda>(key, info). Package info = p \<and> map_of f key = None) t))"
proof -
  have a: "(p \<in> Package ` set xs) = (0 < length (filter (\<lambda>i. Package i = p) xs))" for xs
    by (auto simp: filter_empty_conv)
  have b: "(p \<in> (Package \<circ> fst) ` set ys) = (0 < length (filter (\<lambda>(a, b). Package a = p) ys))"
    for ys :: "(FuncInfo \<times> FuncInfo) list"
    by (force simp: filter_empty_conv)
  show ?thesis
    unfolding diffFuncs_stats_keys Un_iff a b
    by (simp only: diffFuncs_New diffFuncs_Changed diffFuncs_Removed count_onlyIn count_changedIn)
      blast
qed

text \<open>
  Claim C8. The new and the changed declarations are records of the from side and the
  removed ones records of the to side. The counters have one entry per package, for
  exactly the packages of the new records, of the from sides of the changed pairs and
  of the removed records. The entry of a package counts the new records with that
  package, the changed pairs whose from side has that package and the removed records
  with that package. Summed over the packages, each counter is the number of
  declarations of its class.

  The second half states the same against the two inventories. The three lists are the
  from-side entries whose key the to side lacks, the to-side entries whose key the from
  side lacks, and the from-side entries with a to-side entry that differs. A package
  has counters exactly when it has such an entry, its \<^verbatim>\<open>New\<close> and \<^verbatim>\<open>Changed\<close> counters
  count the from-side entries of that package in the first and the third class, and
  its \<^verbatim>\<open>Removed\<close> counter counts the to-side entries of that package whose key the from
  side lacks.
\<close>

theorem diffFuncs_package_counters:
  "let r = diffFuncs fromFuncs toFuncs in
     (set (NewFuncs r) \<subseteq> snd ` set fromFuncs \<and>
      fst ` set (ChangedFuncs r) \<subseteq> snd ` set fromFuncs \<and>
      set (RemovedFuncs r) \<subseteq> snd ` set toFuncs \<and>
      distinct (map fst (PkgStats r)) \<and>
      fst ` set (PkgStats r) =
        Package ` set (NewFuncs r) \<union> (Package \<circ> fst) ` set (ChangedFuncs r) \<union>
        Package ` set (RemovedFuncs r) \<and>
      (\<forall>pkg s. map_of (PkgStats r) pkg = Some s \<longrightarrow>
         New s = int (length (filter (\<lambda>info. Package info = pkg) (NewFuncs r))) \<and>
         Changed s =
           int (length (filter (\<lambda>(fromInfo, toInfo). Package fromInfo = pkg) (ChangedFuncs r))) \<and>
         Removed s = int (length (filter (\<lambda>info. Package info = pkg) (RemovedFuncs r)))) \<and>
      sum_list (map (New \<circ> snd) (PkgStats r)) = int (length (NewFuncs r)) \<and>
      sum_list (map (Changed \<circ> snd) (PkgStats r)) = int (length (ChangedFuncs r)) \<and>
      sum_list (map (Removed \<circ> snd) (PkgStats r)) = int (length (RemovedFuncs r))) \<and>
     (NewFuncs r = map snd (filter (\<lambda>(key, info). map_of toFuncs key = None) fromFuncs) \<and>
      RemovedFuncs r = map snd (filter (\<lambda>(key, info). map_of fromFuncs key = None) toFuncs) \<and>
      ChangedFuncs r =
        concat (map (\<lambda>(key, fromInfo).
          case map_of toFuncs key of
            None \<Rightarrow> []
          | Some toInfo \<Rightarrow> if differs fromInfo toInfo then [(fromInfo, toInfo)] else [])
          fromFuncs) \<and>
      (\<forall>pkg. (pkg \<in> fst ` set (PkgStats r)) =
         (0 < length (filter (\<lambda>(key, info). Package info = pkg \<and> map_of toFuncs key = None)
                fromFuncs) \<or>
          0 < length (filter (\<lambda>(key, info). Package info = pkg \<and>
                (case map_of toFuncs key of
                   None \<Rightarrow> False | Some toInfo \<Rightarrow> differs info toInfo)) fromFuncs) \<or>
          0 < length (filter (\<lambda>(key, info). Package info = pkg \<and> map_of fromFuncs key = None)
                toFuncs))) \<and>
      (\<forall>pkg s. map_of (PkgStats r) pkg = Some s \<longrightarrow>
         New s = int (length (filter
           (\<lambda>(key, info). Package info = pkg \<and> map_of toFuncs key = None) fromFuncs)) \<and>
         Changed s = int (length (filter
           (\<lambda>(key, info). Package info = pkg \<and>
              (case map_of toFuncs key of
                 None \<Rightarrow> False | Some toInfo \<Rightarrow> differs info toInfo)) fromFuncs)) \<and>
         Removed s = int (length (filter
           (\<lambda>(key, info). Package info = pkg \<and> map_of fromFuncs key = None) toFuncs))) \<and>
      sum_list (map (New \<circ> snd) (PkgStats r)) =
        int (length (filter (\<lambda>(key, info). map_of toFuncs key = None) fromFuncs)) \<and>
      sum_list (map (Changed \<circ> snd) (PkgStats r)) =
        int (length (filter (\<lambda>(key, info).
          case map_of toFuncs key of
            None \<Rightarrow> False | Some toInfo \<Rightarrow> differs info toInfo) fromFuncs)) \<and>
      sum_list (map (Removed \<circ> snd) (PkgStats r)) =
        int (length (filter (\<lambda>(key, info). map_of fromFuncs key = None) toFuncs)))"
proof -
  define r where "r = diffFuncs fromFuncs toFuncs"
  have old1: "\<And>pkg s. map_of (PkgStats r) pkg = Some s \<Longrightarrow>
        New s = int (length (filter (\<lambda>info. Package info = pkg) (NewFuncs r))) \<and>
        Changed s = int (length (filter (\<lambda>(fromInfo, toInfo). Package fromInfo = pkg)
                  (ChangedFuncs r))) \<and>
        Removed s = int (length (filter (\<lambda>info. Package info = pkg) (RemovedFuncs r)))"
    unfolding r_def using diffFuncs_stats [of fromFuncs toFuncs] by (metis statsOf_Some)
  have old: "set (NewFuncs r) \<subseteq> snd ` set fromFuncs \<and>
      fst ` set (ChangedFuncs r) \<subseteq> snd ` set fromFuncs \<and>
      set (RemovedFuncs r) \<subseteq> snd ` set toFuncs \<and>
      distinct (map fst (PkgStats r)) \<and>
      fst ` set (PkgStats r) =
        Package ` set (NewFuncs r) \<union> (Package \<circ> fst) ` set (ChangedFuncs r) \<union>
        Package ` set (RemovedFuncs r) \<and>
      (\<forall>pkg s. map_of (PkgStats r) pkg = Some s \<longrightarrow>
         New s = int (length (filter (\<lambda>info. Package info = pkg) (NewFuncs r))) \<and>
         Changed s =
           int (length (filter (\<lambda>(fromInfo, toInfo). Package fromInfo = pkg) (ChangedFuncs r))) \<and>
         Removed s = int (length (filter (\<lambda>info. Package info = pkg) (RemovedFuncs r)))) \<and>
      sum_list (map (New \<circ> snd) (PkgStats r)) = int (length (NewFuncs r)) \<and>
      sum_list (map (Changed \<circ> snd) (PkgStats r)) = int (length (ChangedFuncs r)) \<and>
      sum_list (map (Removed \<circ> snd) (PkgStats r)) = int (length (RemovedFuncs r))"
    using old1 unfolding r_def
    using diffFuncs_sides [of fromFuncs toFuncs] diffFuncs_sums [of fromFuncs toFuncs]
      diffFuncs_stats_distinct [of fromFuncs toFuncs]
      diffFuncs_stats_keys [of fromFuncs toFuncs]
    by blast
  have lists: "NewFuncs r = map snd (filter (\<lambda>(key, info). map_of toFuncs key = None) fromFuncs)"
    "RemovedFuncs r = map snd (filter (\<lambda>(key, info). map_of fromFuncs key = None) toFuncs)"
    "ChangedFuncs r =
        concat (map (\<lambda>(key, fromInfo).
          case map_of toFuncs key of
            None \<Rightarrow> []
          | Some toInfo \<Rightarrow> if differs fromInfo toInfo then [(fromInfo, toInfo)] else [])
          fromFuncs)"
    unfolding r_def
    by (simp_all add: diffFuncs_New diffFuncs_Removed diffFuncs_Changed onlyIn_def changedIn_def)
  have dom: "\<forall>pkg. (pkg \<in> fst ` set (PkgStats r)) =
         (0 < length (filter (\<lambda>(key, info). Package info = pkg \<and> map_of toFuncs key = None)
                fromFuncs) \<or>
          0 < length (filter (\<lambda>(key, info). Package info = pkg \<and>
                (case map_of toFuncs key of
                   None \<Rightarrow> False | Some toInfo \<Rightarrow> differs info toInfo)) fromFuncs) \<or>
          0 < length (filter (\<lambda>(key, info). Package info = pkg \<and> map_of fromFuncs key = None)
                toFuncs))"
    unfolding r_def using diffFuncs_stats_dom [of _ fromFuncs toFuncs] by blast
  have cnt: "\<forall>pkg s. map_of (PkgStats r) pkg = Some s \<longrightarrow>
         New s = int (length (filter
           (\<lambda>(key, info). Package info = pkg \<and> map_of toFuncs key = None) fromFuncs)) \<and>
         Changed s = int (length (filter
           (\<lambda>(key, info). Package info = pkg \<and>
              (case map_of toFuncs key of
                 None \<Rightarrow> False | Some toInfo \<Rightarrow> differs info toInfo)) fromFuncs)) \<and>
         Removed s = int (length (filter
           (\<lambda>(key, info). Package info = pkg \<and> map_of fromFuncs key = None) toFuncs))"
    unfolding r_def using diffFuncs_stats_inv [of fromFuncs toFuncs] by (metis statsOf_Some)
  have sums: "sum_list (map (New \<circ> snd) (PkgStats r)) =
        int (length (filter (\<lambda>(key, info). map_of toFuncs key = None) fromFuncs))"
    "sum_list (map (Changed \<circ> snd) (PkgStats r)) =
        int (length (filter (\<lambda>(key, info).
          case map_of toFuncs key of
            None \<Rightarrow> False | Some toInfo \<Rightarrow> differs info toInfo) fromFuncs))"
    "sum_list (map (Removed \<circ> snd) (PkgStats r)) =
        int (length (filter (\<lambda>(key, info). map_of fromFuncs key = None) toFuncs))"
    unfolding r_def
    by (simp_all add: diffFuncs_sums diffFuncs_New diffFuncs_Removed diffFuncs_Changed
        length_onlyIn length_changedIn)
  show ?thesis
    unfolding Let_def r_def [symmetric]
    by (rule conjI [OF old]) (intro conjI, (rule lists dom cnt sums)+)
qed

theorem diffFuncs_package_counters_witness:
  "map_of (PkgStats (diffFuncs exFrom exTo)) ''a'' =
     Some \<lparr>New = 0, Removed = 0, Changed = 1\<rparr> \<and>
   map_of (PkgStats (diffFuncs exFrom exTo)) ''b'' =
     Some \<lparr>New = 1, Removed = 0, Changed = 0\<rparr> \<and>
   map_of (PkgStats (diffFuncs exFrom exTo)) ''c'' =
     Some \<lparr>New = 0, Removed = 1, Changed = 0\<rparr> \<and>
   RemovedFuncs (diffFuncs exFrom exTo) = [exR] \<and>
   int (length (filter (\<lambda>(key, info). Package info = ''c'' \<and> map_of exFrom key = None) exTo)) = 1 \<and>
   int (length (filter (\<lambda>(key, info). Package info = ''b'' \<and> map_of exTo key = None) exFrom)) = 1 \<and>
   int (length (filter (\<lambda>(key, info). Package info = ''a'' \<and>
      (case map_of exTo key of None \<Rightarrow> False | Some toInfo \<Rightarrow> differs info toInfo)) exFrom)) = 1 \<and>
   sum_list (map (Removed \<circ> snd) (PkgStats (diffFuncs exFrom exTo))) = 1"
proof -
  have m: "map_of (PkgStats (diffFuncs exFrom exTo)) ''a'' =
      Some \<lparr>New = 0, Removed = 0, Changed = 1\<rparr>"
    "map_of (PkgStats (diffFuncs exFrom exTo)) ''b'' =
      Some \<lparr>New = 1, Removed = 0, Changed = 0\<rparr>"
    "map_of (PkgStats (diffFuncs exFrom exTo)) ''c'' =
      Some \<lparr>New = 0, Removed = 1, Changed = 0\<rparr>"
    "RemovedFuncs (diffFuncs exFrom exTo) = [exR]"
    by (simp_all add: ex_diff)
  note t = diffFuncs_package_counters [of exFrom exTo, unfolded Let_def]
  from t have cnt: "\<forall>pkg s. map_of (PkgStats (diffFuncs exFrom exTo)) pkg = Some s \<longrightarrow>
         New s = int (length (filter
           (\<lambda>(key, info). Package info = pkg \<and> map_of exTo key = None) exFrom)) \<and>
         Changed s = int (length (filter
           (\<lambda>(key, info). Package info = pkg \<and>
              (case map_of exTo key of
                 None \<Rightarrow> False | Some toInfo \<Rightarrow> differs info toInfo)) exFrom)) \<and>
         Removed s = int (length (filter
           (\<lambda>(key, info). Package info = pkg \<and> map_of exFrom key = None) exTo))"
    by (elim conjE)
  from t have sm: "sum_list (map (Removed \<circ> snd) (PkgStats (diffFuncs exFrom exTo))) =
        int (length (RemovedFuncs (diffFuncs exFrom exTo)))"
    by (elim conjE)
  have c: "int (length (filter (\<lambda>(key, info). Package info = ''c'' \<and> map_of exFrom key = None) exTo)) = 1"
    using cnt [rule_format, OF m(3)] by simp
  have b: "int (length (filter (\<lambda>(key, info). Package info = ''b'' \<and> map_of exTo key = None) exFrom)) = 1"
    using cnt [rule_format, OF m(2)] by simp
  have a: "int (length (filter (\<lambda>(key, info). Package info = ''a'' \<and>
      (case map_of exTo key of None \<Rightarrow> False | Some toInfo \<Rightarrow> differs info toInfo)) exFrom)) = 1"
    using cnt [rule_format, OF m(1)] by simp
  have s: "sum_list (map (Removed \<circ> snd) (PkgStats (diffFuncs exFrom exTo))) = 1"
    using sm by (simp add: m(4))
  show ?thesis by (intro conjI) (rule m a b c s)+
qed

section \<open>Properties of the string functions\<close>

subsection \<open>Split and join\<close>

lemma strSplit_nonempty [simp]: "strSplit sep s \<noteq> []"
  by (induction s) (auto split: list.splits)

lemma strSplit_no_sep: "l \<in> set (strSplit sep s) \<Longrightarrow> sep \<notin> set l"
  by (induction s arbitrary: l) (auto split: if_splits list.splits)

lemma strSplit_chars: "l \<in> set (strSplit sep s) \<Longrightarrow> set l \<subseteq> set s"
  by (induction s arbitrary: l) (fastforce split: if_splits list.splits)+

lemma strSplit_no_sep_id: "sep \<notin> set l \<Longrightarrow> strSplit sep l = [l]"
  by (induction l) auto

lemma strSplit_append:
  "sep \<notin> set l \<Longrightarrow> strSplit sep (l @ sep # rest) = l # strSplit sep rest"
  by (induction l) auto

lemma strSplit_strJoin:
  "ls \<noteq> [] \<Longrightarrow> \<forall>l \<in> set ls. sep \<notin> set l \<Longrightarrow> strSplit sep (strJoin [sep] ls) = ls"
  by (induction "[sep]" ls rule: strJoin.induct)
     (auto simp: strSplit_no_sep_id strSplit_append)

lemma set_strJoin: "set (strJoin sep ls) \<subseteq> set sep \<union> \<Union> (set ` set ls)"
  by (induction sep ls rule: strJoin.induct) auto

subsection \<open>extractLines\<close>

lemma take_drop_nth:
  "m + n \<le> length xs \<Longrightarrow> take n (drop m xs) = map (\<lambda>i. xs ! i) [m..<m + n]"
  by (rule nth_equalityI) auto

lemma extractLines_eq:
  "extractLines src startLine endLine =
     Inr (let lines = strSplit LF src;
              s = max 1 startLine;
              e = min endLine (int (length lines))
          in if s > e then []
             else strJoin [LF] (map (\<lambda>k. lines ! (k - 1)) [nat s..<Suc (nat e)]))"
proof -
  define lines where "lines = strSplit LF src"
  define s where "s = max 1 startLine"
  define e where "e = min endLine (int (length lines))"
  have n: "length lines \<noteq> 0" by (simp add: lines_def)
  have se: "(if startLine < 1 then 1 else startLine) = s"
     "(if endLine > int (length lines) then int (length lines) else endLine) = e"
    by (auto simp: s_def e_def)
  have 1: "extractLines src startLine endLine =
      (if s > e then Inr []
       else (case goSlice lines (s - 1) e of
               Inl p \<Rightarrow> Inl p | Inr ls \<Rightarrow> Inr (strJoin [LF] ls)))"
    using n unfolding extractLines_def lines_def [symmetric] Let_def se by simp
  have 2: "goSlice lines (s - 1) e = Inr (map (\<lambda>k. lines ! (k - 1)) [nat s..<Suc (nat e)])"
    if "\<not> s > e"
  proof -
    have b: "1 \<le> s" "s \<le> e" "e \<le> int (length lines)"
      using that by (auto simp: s_def e_def)
    then have "nat (s - 1) + nat (e - (s - 1)) \<le> length lines" by linarith
    then have "take (nat (e - (s - 1))) (drop (nat (s - 1)) lines) =
        map (\<lambda>i. lines ! i) [nat (s - 1)..<nat (s - 1) + nat (e - (s - 1))]"
      by (rule take_drop_nth)
    also have "nat (s - 1) + nat (e - (s - 1)) = nat e" using b by linarith
    also have "map (\<lambda>i. lines ! i) [nat (s - 1)..<nat e] =
        map (\<lambda>k. lines ! (k - 1)) [nat s..<Suc (nat e)]"
    proof -
      have "[nat s..<Suc (nat e)] = map Suc [nat (s - 1)..<nat e]"
        using b by (simp add: map_Suc_upt Suc_nat_eq_nat_zadd1)
      then show ?thesis by (simp add: comp_def)
    qed
    finally show ?thesis using b by (simp add: goSlice_def)
  qed
  show ?thesis
    using 1 2 unfolding lines_def [symmetric] s_def [symmetric] e_def [symmetric] Let_def
    by auto
qed

lemma extractLines_total: "\<exists>body. extractLines src startLine endLine = Inr body"
  using extractLines_eq [of src startLine endLine] by blast

text \<open>
  Claim C10. \<^verbatim>\<open>extractLines\<close> never panics: for every source text and every pair of
  integers it returns a string. With \<open>s\<close> the start line raised to at least 1 and \<open>e\<close>
  the end line lowered to at most the number of lines, the result is empty when
  \<open>s > e\<close>, and otherwise the lines numbered \<open>s\<close> to \<open>e\<close> (line \<open>k\<close> is the element
  \<open>k - 1\<close> of the list of lines) joined with line feeds; every line number read lies
  between 1 and the number of lines.
\<close>

theorem extractLines_total_in_bounds:
  "extractLines src startLine endLine =
     Inr (let lines = strSplit LF src;
              s = max 1 startLine;
              e = min endLine (int (length lines))
          in if s > e then []
             else strJoin [LF] (map (\<lambda>k. lines ! (k - 1)) [nat s..<Suc (nat e)])) \<and>
   (\<forall>k \<in> set [nat (max 1 startLine)..<
                Suc (nat (min endLine (int (length (strSplit LF src)))))].
      1 \<le> k \<and> k - 1 < length (strSplit LF src))"
proof
  show "extractLines src startLine endLine =
     Inr (let lines = strSplit LF src;
              s = max 1 startLine;
              e = min endLine (int (length lines))
          in if s > e then []
             else strJoin [LF] (map (\<lambda>k. lines ! (k - 1)) [nat s..<Suc (nat e)]))"
    by (rule extractLines_eq)
  show "\<forall>k \<in> set [nat (max 1 startLine)..<
                Suc (nat (min endLine (int (length (strSplit LF src)))))].
      1 \<le> k \<and> k - 1 < length (strSplit LF src)"
    by auto
qed

theorem extractLines_total_in_bounds_witness:
  "extractLines (''a'' @ [LF] @ ''b'' @ [LF] @ ''c'') 2 7 = Inr (''b'' @ [LF] @ ''c'') \<and>
   extractLines (''a'' @ [LF] @ ''b'' @ [LF] @ ''c'') (- 4) 1 = Inr ''a'' \<and>
   extractLines (''a'' @ [LF] @ ''b'' @ [LF] @ ''c'') 3 2 = Inr []"
  using extractLines_total_in_bounds [of "''a'' @ [LF] @ ''b'' @ [LF] @ ''c''" 2 7]
    extractLines_total_in_bounds [of "''a'' @ [LF] @ ''b'' @ [LF] @ ''c''" "- 4" 1]
    extractLines_total_in_bounds [of "''a'' @ [LF] @ ''b'' @ [LF] @ ''c''" 3 2]
  by (simp add: Let_def upt_rec)

subsection \<open>Replacement\<close>

lemma replaceAll_Nil [simp]: "replaceAll old new [] = []"
  by (simp add: replaceAll.simps)

lemma replaceAll_char_Cons:
  "replaceAll [a] new (c # cs) =
     (if c = a then new @ replaceAll [a] new cs else c # replaceAll [a] new cs)"
  by (subst replaceAll.simps) simp

lemma replaceAll_pair_Cons:
  "replaceAll [a, b] new (c # cs) =
     (case cs of
        d # ds \<Rightarrow> if c = a \<and> d = b then new @ replaceAll [a, b] new ds
                  else c # replaceAll [a, b] new cs
      | [] \<Rightarrow> [c])"
  by (subst replaceAll.simps) (simp split: list.splits)

lemma replaceAll_char: "replaceAll [a] new s = concat (map (\<lambda>c. if c = a then new else [c]) s)"
  by (induction s) (simp_all add: replaceAll_char_Cons)

lemma replaceAll_absent: "old \<noteq> [] \<Longrightarrow> hd old \<notin> set s \<Longrightarrow> replaceAll old new s = s"
proof (induction s)
  case Nil
  show ?case by simp
next
  case (Cons c cs)
  have "\<not> prefix old (c # cs)"
    using Cons.prems by (cases old) (auto simp: prefix_Cons)
  then show ?case
    using Cons by (subst replaceAll.simps) simp
qed

lemma replaceAll_char_removes: "a \<notin> set new \<Longrightarrow> a \<notin> set (replaceAll [a] new s)"
  by (auto simp: replaceAll_char split: if_splits)

lemma lineEndings_no_CR: "CR \<notin> set (lineEndings s)"
  by (simp add: lineEndings_def replaceAll_char_removes)

lemma lineEndings_id: "CR \<notin> set s \<Longrightarrow> lineEndings s = s"
  by (simp add: lineEndings_def replaceAll_absent)

subsection \<open>normalizeBody\<close>

lemma normalizeBody_alt:
  "normalizeBody s = strJoin [LF] (trimEnds (map rtrim (strSplit LF (lineEndings s))))"
  by (simp add: normalizeBody_def lineEndings_def trimEnds_def Let_def rtrim_def [abs_def])

lemma set_rtrim: "set (rtrim l) \<subseteq> set l"
  by (auto simp: rtrim_def trimRight_def dest: set_dropWhileD)

lemma rtrim_idem: "rtrim (rtrim l) = rtrim l"
  unfolding rtrim_def trimRight_def rev_rev_ident
  by (metis dropWhile_idem)

lemma rtrim_Nil [simp]: "rtrim [] = []"
  by (simp add: rtrim_def trimRight_def)

lemma isBlank_Nil [simp]: "isBlank []"
  by (simp add: isBlank_def trimLeftSpace.simps spaceRuneLen_def)

lemma set_trimEnds: "set (trimEnds ls) \<subseteq> set ls"
  by (auto simp: trimEnds_def dest!: set_dropWhileD)

lemma trimEnds_simps [simp]: "trimEnds [[]] = []" "trimEnds [] = []"
  by (simp_all add: trimEnds_def)

lemma trimEnds_fix:
  assumes "ls = [] \<or> (\<not> isBlank (hd ls) \<and> \<not> isBlank (last ls))"
  shows "trimEnds ls = ls"
proof (cases "ls = []")
  case True
  then show ?thesis by (simp add: trimEnds_def)
next
  case False
  with assms have "\<not> isBlank (hd ls)" "\<not> isBlank (last ls)" by auto
  then have "dropWhile isBlank ls = ls" "dropWhile isBlank (rev ls) = rev ls"
    using False by (simp_all add: dropWhile_eq_self_iff hd_rev)
  then show ?thesis by (simp add: trimEnds_def)
qed

lemma trimEnds_ends:
  "trimEnds ls = [] \<or> (\<not> isBlank (hd (trimEnds ls)) \<and> \<not> isBlank (last (trimEnds ls)))"
proof (cases "trimEnds ls = []")
  case True
  then show ?thesis by simp
next
  case False
  define ys where "ys = dropWhile isBlank ls"
  define zs where "zs = dropWhile isBlank (rev ys)"
  have t: "trimEnds ls = rev zs" by (simp add: trimEnds_def ys_def zs_def)
  with False have zne: "zs \<noteq> []" by simp
  then have l: "\<not> isBlank (hd zs)" unfolding zs_def by (metis hd_dropWhile)
  have "\<exists>us. rev ys = us @ zs" unfolding zs_def by (metis takeWhile_dropWhile_id)
  then obtain us where "rev ys = us @ zs" ..
  then have y: "ys = rev zs @ rev us" by (metis rev_append rev_rev_ident)
  then have "ys \<noteq> []" using zne by simp
  then have "\<not> isBlank (hd ys)" unfolding ys_def by (metis hd_dropWhile)
  then have "\<not> isBlank (hd (rev zs))" using y zne by simp
  with l zne show ?thesis by (simp add: t last_rev)
qed

lemma trimEnds_idem: "trimEnds (trimEnds ls) = trimEnds ls"
  using trimEnds_ends [of ls] by (rule trimEnds_fix)

text \<open>The lines of a normalized body: no line ending is left in them, and they are trimmed.\<close>

lemma normalized_lines:
  assumes "l \<in> set (trimEnds (map rtrim (strSplit LF (lineEndings s))))"
  shows "LF \<notin> set l \<and> CR \<notin> set l \<and> rtrim l = l"
proof -
  from assms set_trimEnds [of "map rtrim (strSplit LF (lineEndings s))"]
  obtain l0 where l0: "l0 \<in> set (strSplit LF (lineEndings s))" "l = rtrim l0"
    by auto
  have "LF \<notin> set l0" using l0(1) by (rule strSplit_no_sep)
  moreover have "CR \<notin> set l0"
    using strSplit_chars [OF l0(1)] lineEndings_no_CR [of s] by auto
  ultimately show ?thesis using set_rtrim [of l0] l0(2) by (auto simp: rtrim_idem)
qed

lemma normalizeBody_no_CR: "CR \<notin> set (normalizeBody s)"
  using set_strJoin [of "[LF]" "trimEnds (map rtrim (strSplit LF (lineEndings s)))"]
    normalized_lines [of _ s]
  by (auto simp: normalizeBody_alt)

lemma normalizeBody_idem: "normalizeBody (normalizeBody s) = normalizeBody s"
proof -
  define ls where "ls = trimEnds (map rtrim (strSplit LF (lineEndings s)))"
  have n: "normalizeBody s = strJoin [LF] ls" by (simp add: normalizeBody_alt ls_def)
  have chars: "LF \<notin> set l \<and> CR \<notin> set l \<and> rtrim l = l" if "l \<in> set ls" for l
    using that normalized_lines unfolding ls_def by blast
  show ?thesis
  proof (cases "ls = []")
    case True
    then have e: "normalizeBody s = []" by (simp add: n)
    have "normalizeBody [] = []" by (simp add: normalizeBody_alt lineEndings_id)
    then show ?thesis by (simp add: e)
  next
    case False
    have "CR \<notin> set (strJoin [LF] ls)"
      using normalizeBody_no_CR [of s] by (simp add: n)
    then have 1: "lineEndings (strJoin [LF] ls) = strJoin [LF] ls" by (rule lineEndings_id)
    have 2: "strSplit LF (strJoin [LF] ls) = ls"
      using False chars by (simp add: strSplit_strJoin)
    have 3: "map rtrim ls = ls" using chars by (simp add: map_idI)
    have 4: "trimEnds ls = ls" unfolding ls_def by (rule trimEnds_idem)
    show ?thesis
      unfolding n by (subst normalizeBody_alt) (simp add: 1 2 3 4)
  qed
qed

text \<open>
  Claim C7. Body normalization is idempotent. The normalized text holds no carriage
  return, and normalizing it again finds nothing to change.
\<close>

theorem normalizeBody_idempotent:
  "normalizeBody (normalizeBody s) = normalizeBody s \<and> CR \<notin> set (normalizeBody s)"
  by (simp add: normalizeBody_idem normalizeBody_no_CR)

theorem normalizeBody_idempotent_witness:
  "normalizeBody (normalizeBody exSrcCRLF) = normalizeBody exSrcCRLF \<and>
   normalizeBody exSrcCRLF = ''func F(x int) {'' @ [LF] @ ''  return'' @ [LF] @ ''}''"
proof -
  have "normalizeBody exSrcCRLF = ''func F(x int) {'' @ [LF] @ ''  return'' @ [LF] @ ''}''"
    by code_simp
  then show ?thesis using normalizeBody_idempotent [of exSrcCRLF] by simp
qed

section \<open>Properties of the report renderer\<close>

subsection \<open>The renderer never panics\<close>

lemma loadBody_total: "\<exists>body. loadBody e ref info = Inr body"
  using extractLines_total by (auto simp: loadBody_def split: option.splits)

lemma writeChangedFuncFile_total:
  "\<exists>r w'. writeChangedFuncFile e outDir fromRef toRef fromInfo toInfo w = Inr (r, w')"
proof -
  obtain fb where fb: "loadBody e fromRef fromInfo = Inr fb" using loadBody_total by blast
  obtain tb where tb: "loadBody e toRef toInfo = Inr tb" using loadBody_total by blast
  show ?thesis
    by (simp add: writeChangedFuncFile_def fb tb Let_def split: option.splits)
qed

lemma writeChangedLoop_total:
  "\<exists>fs' w'. writeChangedLoop e outDir fromRef toRef changed fs w = Inr (fs', w')"
proof (induction changed arbitrary: fs w)
  case Nil
  show ?case by simp
next
  case (Cons p changed)
  obtain a b where p: "p = (a, b)" by (cases p)
  obtain r w1 where r: "writeChangedFuncFile e outDir fromRef toRef a b w = Inr (r, w1)"
    using writeChangedFuncFile_total by blast
  show ?case
    unfolding p by (cases r) (simp_all add: r Cons.IH)
qed

lemma writeAllChangedFuncFiles_total:
  "\<exists>fs w'. writeAllChangedFuncFiles e outDir fromRef toRef changed w = Inr (fs, w')"
  using writeChangedLoop_total [of e outDir fromRef toRef changed "[]" w]
  by (auto simp: writeAllChangedFuncFiles_def split: option.splits)

lemma packageRows_total:
  "set pkgs \<subseteq> fst ` set stats \<Longrightarrow> \<exists>rows. packageRows stats pkgs = Inr rows"
proof (induction pkgs)
  case Nil
  show ?case by simp
next
  case (Cons pkg pkgs)
  then obtain rows where rows: "packageRows stats pkgs = Inr rows" by auto
  from Cons.prems obtain s where s: "map_of stats pkg = Some s"
    by (cases "map_of stats pkg") (auto simp: map_of_None_iff)
  show ?case by (simp add: rows s)
qed

lemma buildMarkdownReport_total:
  "\<exists>doc w'. buildMarkdownReport e fromRef toRef fromFuncs toFuncs summaryOnly outDir w = Inr (doc, w')"
proof -
  define d where "d = diffFuncs fromFuncs toFuncs"
  obtain rows where rows: "packageRows (PkgStats d) (sort (map fst (PkgStats d))) = Inr rows"
    using packageRows_total [of "sort (map fst (PkgStats d))" "PkgStats d"] by auto
  have nw: "writeAllChangedFuncFiles e outDir fromRef toRef c w \<noteq> Inl p" for c p
    using writeAllChangedFuncFiles_total [of e outDir fromRef toRef c w] by auto
  show ?thesis
    unfolding buildMarkdownReport_def d_def [symmetric] Let_def
    by (auto simp: rows nw split: sum.splits prod.splits)
qed

lemma diffFuncs_empty:
  "diffFuncs [] [] = \<lparr>NewFuncs = [], RemovedFuncs = [], ChangedFuncs = [], FromTotal = 0, ToTotal = 0, PkgStats = []\<rparr>"
  by (simp add: diffFuncs_def)

lemma showInt_0: "showInt 0 = ''0''"
  by (simp add: showInt_def showNat.simps digit_def)

lemma writeAll_empty:
  "\<exists>w'. writeAllChangedFuncFiles e outDir fromRef toRef [] w = Inr ([], w')"
  by (simp add: writeAllChangedFuncFiles_def split: option.splits)

subsection \<open>File names\<close>

lemma first_sep_split:
  "a \<notin> set u \<Longrightarrow> a \<notin> set u' \<Longrightarrow> u @ a # v = u' @ a # v' \<Longrightarrow> u = u' \<and> v = v'"
proof (induction u arbitrary: u')
  case Nil
  then show ?case by (cases u') auto
next
  case (Cons c u)
  then show ?case by (cases u') auto
qed

lemma last_sep_split:
  assumes "a \<notin> set t" "a \<notin> set t'" "x @ a # t = x' @ a # t'"
  shows "x = x' \<and> t = t'"
proof -
  have "rev t @ a # rev x = rev t' @ a # rev x'"
    using arg_cong [OF assms(3), of rev] by simp
  then have "rev t = rev t' \<and> rev x = rev x'"
    using assms(1,2) by (intro first_sep_split [of a]) auto
  then show ?thesis by simp
qed

lemma safePath_map:
  assumes "CHR 0x5C \<notin> set f"
  shows "replaceAll [CHR 0x5C] ''_'' (replaceAll ''/'' ''_'' f) = map flatten f"
proof -
  have 1: "replaceAll ''/'' ''_'' f = map flatten f"
    by (induction f) (simp_all add: replaceAll_char_Cons flatten_def)
  have "CHR 0x5C \<notin> set (map flatten f)" using assms by (auto simp: flatten_def)
  then show ?thesis by (simp add: 1 replaceAll_absent)
qed

lemma flatten_inj:
  assumes "CHR ''_'' \<notin> set f" "CHR ''_'' \<notin> set g" "map flatten f = map flatten g"
  shows "f = g"
proof -
  have "inj_on flatten (set f \<union> set g)"
    using assms(1,2) by (auto simp: inj_on_def flatten_def split: if_splits)
  then show ?thesis using assms(3) by (simp add: inj_on_map_eq_map)
qed

lemma flatten_no_double:
  assumes "CHR ''_'' \<notin> set f" "\<not> sublist ''//'' f"
  shows "map flatten f \<noteq> x @ ''__'' @ y"
proof
  assume "map flatten f = x @ ''__'' @ y"
  then obtain us ws where uw: "f = us @ ws" "map flatten ws = ''__'' @ y"
    by (auto simp: map_eq_append_conv)
  from uw(2) obtain c d vs where ws: "ws = c # d # vs" "flatten c = CHR ''_''"
      "flatten d = CHR ''_''"
    by (auto simp: map_eq_Cons_conv)
  with uw(1) have "\<exists>us c d vs. f = us @ c # d # vs \<and> flatten c = CHR ''_'' \<and>
      flatten d = CHR ''_''"
    by blast
  then obtain us c d vs where f: "f = us @ c # d # vs"
    and cd: "flatten c = CHR ''_''" "flatten d = CHR ''_''" by blast
  have "c \<in> set f" "d \<in> set f" using f by auto
  with assms(1) cd have "c = CHR ''/''" "d = CHR ''/''"
    by (auto simp: flatten_def split: if_splits)
  with f have "f = us @ ''//'' @ vs" by simp
  then have "sublist ''//'' f" unfolding sublist_def by blast
  with assms(2) show False by simp
qed

lemma ptr_head:
  assumes "replaceAll ''*'' ''ptr'' s = d # x" "d \<noteq> CHR ''p''"
  shows "\<exists>s'. s = d # s' \<and> replaceAll ''*'' ''ptr'' s' = x"
  using assms by (cases s) (auto simp: replaceAll_char_Cons split: if_splits)

lemma ptr_inj:
  "\<not> sublist ''ptr'' r \<Longrightarrow> \<not> sublist ''ptr'' r' \<Longrightarrow>
   replaceAll ''*'' ''ptr'' r = replaceAll ''*'' ''ptr'' r' \<Longrightarrow> r = r'"
proof (induction r arbitrary: r')
  case Nil
  then show ?case by (cases r') (auto simp: replaceAll_char_Cons split: if_splits)
next
  case (Cons c cs)
  note IH = Cons.IH
  have tl: "\<not> sublist ''ptr'' cs" using Cons.prems(1) by (auto simp: sublist_Cons_right)
  show ?case
  proof (cases r')
    case Nil
    with Cons.prems(3) show ?thesis by (auto simp: replaceAll_char_Cons split: if_splits)
  next
    case (Cons c' cs')
    have tl': "\<not> sublist ''ptr'' cs'" using Cons.prems(2) Cons by (auto simp: sublist_Cons_right)
    have eq: "replaceAll ''*'' ''ptr'' (c # cs) = replaceAll ''*'' ''ptr'' (c' # cs')"
      using Cons.prems(3) Cons by simp
    consider (ss) "c = CHR ''*''" "c' = CHR ''*''" | (sn) "c = CHR ''*''" "c' \<noteq> CHR ''*''"
      | (ns) "c \<noteq> CHR ''*''" "c' = CHR ''*''" | (nn) "c \<noteq> CHR ''*''" "c' \<noteq> CHR ''*''"
      by blast
    then show ?thesis
    proof cases
      case ss
      with eq have "replaceAll ''*'' ''ptr'' cs = replaceAll ''*'' ''ptr'' cs'"
        by (simp add: replaceAll_char_Cons)
      with IH tl tl' ss Cons show ?thesis by auto
    next
      case sn
      with eq have c': "c' = CHR ''p''"
        and e: "replaceAll ''*'' ''ptr'' cs' = CHR ''t'' # CHR ''r'' # replaceAll ''*'' ''ptr'' cs"
        by (auto simp: replaceAll_char_Cons)
      from ptr_head [OF e] obtain s1 where s1: "cs' = CHR ''t'' # s1"
        "replaceAll ''*'' ''ptr'' s1 = CHR ''r'' # replaceAll ''*'' ''ptr'' cs" by auto
      from ptr_head [OF s1(2)] obtain s2 where s2: "s1 = CHR ''r'' # s2" by auto
      have "prefix ''ptr'' r'" using Cons c' s1(1) s2 by simp
      then have "sublist ''ptr'' r'" by (rule prefix_imp_sublist)
      with Cons.prems(2) show ?thesis by simp
    next
      case ns
      with eq have c: "c = CHR ''p''"
        and e: "replaceAll ''*'' ''ptr'' cs = CHR ''t'' # CHR ''r'' # replaceAll ''*'' ''ptr'' cs'"
        by (auto simp: replaceAll_char_Cons)
      from ptr_head [OF e] obtain s1 where s1: "cs = CHR ''t'' # s1"
        "replaceAll ''*'' ''ptr'' s1 = CHR ''r'' # replaceAll ''*'' ''ptr'' cs'" by auto
      from ptr_head [OF s1(2)] obtain s2 where s2: "s1 = CHR ''r'' # s2" by auto
      have "prefix ''ptr'' (c # cs)" using c s1(1) s2 by simp
      then have "sublist ''ptr'' (c # cs)" by (rule prefix_imp_sublist)
      with Cons.prems(1) show ?thesis by simp
    next
      case nn
      with eq have "c = c'" "replaceAll ''*'' ''ptr'' cs = replaceAll ''*'' ''ptr'' cs'"
        by (simp_all add: replaceAll_char_Cons)
      with IH tl tl' Cons show ?thesis by auto
    qed
  qed
qed

lemma ptr_no_underscore:
  "CHR ''_'' \<notin> set r \<Longrightarrow> CHR ''_'' \<notin> set (replaceAll ''*'' ''ptr'' r)"
  by (auto simp: replaceAll_char split: if_splits)

lemma ptr_nonempty: "r \<noteq> [] \<Longrightarrow> replaceAll ''*'' ''ptr'' r \<noteq> []"
  by (cases r) (auto simp: replaceAll_char_Cons)

lemma filename_form:
  assumes "CHR 0x5C \<notin> set (File a)"
  shows "changedFuncFilenameWithRecv a =
     (if Receiver a \<noteq> []
      then (map flatten (File a) @ ''__'' @ replaceAll ''*'' ''ptr'' (Receiver a) @ ''_'') @
             CHR ''_'' # (Name a @ ''.md'')
      else (map flatten (File a) @ ''_'') @ CHR ''_'' # (Name a @ ''.md''))"
  using assms by (simp add: changedFuncFilenameWithRecv_def safePath_map Let_def)

text \<open>
  On plain records the name without the prefix determines file, receiver and name. The
  prefix for identical bodies is outside this lemma.
\<close>

lemma filename_inj:
  assumes a: "plainParts a" and b: "plainParts b"
    and eq: "changedFuncFilenameWithRecv a = changedFuncFilenameWithRecv b"
  shows "File a = File b \<and> Receiver a = Receiver b \<and> Name a = Name b"
proof -
  define Ya where "Ya = (if Receiver a \<noteq> []
      then map flatten (File a) @ ''__'' @ replaceAll ''*'' ''ptr'' (Receiver a) @ ''_''
      else map flatten (File a) @ ''_'')"
  define Yb where "Yb = (if Receiver b \<noteq> []
      then map flatten (File b) @ ''__'' @ replaceAll ''*'' ''ptr'' (Receiver b) @ ''_''
      else map flatten (File b) @ ''_'')"
  have fa: "changedFuncFilenameWithRecv a = Ya @ CHR ''_'' # (Name a @ ''.md'')"
    using a by (simp add: filename_form plainParts_def Ya_def)
  have fb: "changedFuncFilenameWithRecv b = Yb @ CHR ''_'' # (Name b @ ''.md'')"
    using b by (simp add: filename_form plainParts_def Yb_def)
  have "Ya = Yb \<and> Name a @ ''.md'' = Name b @ ''.md''"
    using a b eq unfolding fa fb
    by (intro last_sep_split [of "CHR ''_''"]) (auto simp: plainParts_def)
  then have Y: "Ya = Yb" and N: "Name a = Name b" by auto
  let ?Ra = "replaceAll ''*'' ''ptr'' (Receiver a)"
  let ?Rb = "replaceAll ''*'' ''ptr'' (Receiver b)"
  have ua: "CHR ''_'' \<notin> set ?Ra" using a by (simp add: plainParts_def ptr_no_underscore)
  have ub: "CHR ''_'' \<notin> set ?Rb" using b by (simp add: plainParts_def ptr_no_underscore)
  consider (rr) "Receiver a \<noteq> []" "Receiver b \<noteq> []" | (nn) "Receiver a = []" "Receiver b = []"
    | (rn) "Receiver a \<noteq> []" "Receiver b = []" | (nr) "Receiver a = []" "Receiver b \<noteq> []"
    by blast
  then show ?thesis
  proof cases
    case rr
    with Y have "(map flatten (File a) @ ''_'') @ CHR ''_'' # ?Ra =
                 (map flatten (File b) @ ''_'') @ CHR ''_'' # ?Rb"
      by (simp add: Ya_def Yb_def)
    then have "map flatten (File a) @ ''_'' = map flatten (File b) @ ''_'' \<and> ?Ra = ?Rb"
      using ua ub by (intro last_sep_split [of "CHR ''_''"]) auto
    then have "map flatten (File a) = map flatten (File b)" "?Ra = ?Rb" by auto
    then have "File a = File b" "Receiver a = Receiver b"
      using a b by (auto simp: plainParts_def intro: flatten_inj ptr_inj)
    with N show ?thesis by simp
  next
    case nn
    with Y have "map flatten (File a) = map flatten (File b)" by (simp add: Ya_def Yb_def)
    then have "File a = File b" using a b by (auto simp: plainParts_def intro: flatten_inj)
    with N nn show ?thesis by simp
  next
    case rn
    with Y have "map flatten (File b) = map flatten (File a) @ ''__'' @ ?Ra"
      by (simp add: Ya_def Yb_def)
    with flatten_no_double [of "File b" "map flatten (File a)" ?Ra] b
    show ?thesis by (simp add: plainParts_def)
  next
    case nr
    with Y have "map flatten (File a) = map flatten (File b) @ ''__'' @ ?Rb"
      by (simp add: Ya_def Yb_def)
    with flatten_no_double [of "File a" "map flatten (File b)" ?Rb] a
    show ?thesis by (simp add: plainParts_def)
  qed
qed

subsection \<open>Layout and normalization\<close>

lemma textLines_eq: "textLines s = strSplit LF (lineEndings s)"
proof (induction s rule: textLines.induct)
  case 1
  show ?case by (simp add: lineEndings_def)
next
  case (2 c cs)
  consider (lf) "c = LF" | (cr) "c = CR" | (other) "c \<noteq> LF" "c \<noteq> CR" by blast
  then show ?case
  proof cases
    case lf
    then have "lineEndings (c # cs) = LF # lineEndings cs"
      by (cases cs) (simp_all add: lineEndings_def replaceAll_pair_Cons replaceAll_char_Cons)
    with lf 2 show ?thesis by simp
  next
    case cr
    show ?thesis
    proof (cases cs)
      case Nil
      with cr show ?thesis
        by (simp add: lineEndings_def replaceAll_pair_Cons replaceAll_char_Cons)
    next
      case (Cons d ds)
      show ?thesis
      proof (cases "d = LF")
        case True
        with cr Cons have "lineEndings (c # cs) = LF # lineEndings ds"
          by (simp add: lineEndings_def replaceAll_pair_Cons replaceAll_char_Cons)
        with cr Cons True 2(2) show ?thesis by simp
      next
        case False
        with cr Cons have "lineEndings (c # cs) = LF # lineEndings cs"
          by (simp add: lineEndings_def replaceAll_pair_Cons replaceAll_char_Cons)
        with cr Cons False 2(2) show ?thesis by simp
      qed
    qed
  next
    case other
    then have "lineEndings (c # cs) = c # lineEndings cs"
      by (cases cs) (simp_all add: lineEndings_def replaceAll_pair_Cons replaceAll_char_Cons)
    with other 2(3) show ?thesis by simp
  qed
qed

lemma stripTrailing_Nil_iff: "stripTrailing l = [] \<longleftrightarrow> set l \<subseteq> {CHR '' '', TAB}"
  by (induction l) auto

lemma rtrim_Cons:
  "rtrim (c # cs) = (if (c = CHR '' '' \<or> c = TAB) \<and> rtrim cs = [] then [] else c # rtrim cs)"
proof -
  let ?P = "\<lambda>c. c \<in> set [CHR '' '', TAB]"
  have "dropWhile ?P (rev cs @ [c]) =
      (if \<forall>x \<in> set (rev cs). ?P x then dropWhile ?P [c] else dropWhile ?P (rev cs) @ [c])"
    by (simp add: dropWhile_append)
  moreover have "(\<forall>x \<in> set (rev cs). ?P x) \<longleftrightarrow> dropWhile ?P (rev cs) = []"
    by (simp add: dropWhile_eq_Nil_conv)
  ultimately show ?thesis
    by (auto simp: rtrim_def trimRight_def)
qed

lemma stripTrailing_eq: "stripTrailing l = rtrim l"
  by (induction l) (simp_all add: rtrim_Cons)

lemma trimEnds_snoc_empty: "trimEnds (ls @ [[]]) = trimEnds ls"
proof (cases "\<forall>l \<in> set ls. isBlank l")
  case True
  then have a: "dropWhile isBlank ls = []" "dropWhile isBlank (ls @ [[]]) = []"
    by (simp_all add: dropWhile_append dropWhile_eq_Nil_conv)
  show ?thesis unfolding trimEnds_def a by simp
next
  case False
  then have "dropWhile isBlank (ls @ [[]]) = dropWhile isBlank ls @ [[]]"
    by (auto simp: dropWhile_append)
  then show ?thesis by (simp add: trimEnds_def)
qed

lemma textLines_nonempty [simp]: "textLines s \<noteq> []"
  by (simp add: textLines_eq)

lemma trimEnds_layoutLines:
  "trimEnds (layoutLines s) = trimEnds (map rtrim (strSplit LF (lineEndings s)))"
proof -
  define ms where "ms = map rtrim (strSplit LF (lineEndings s))"
  have ne: "ms \<noteq> []" by (simp add: ms_def)
  have l: "layoutLines s = (if last ms = [] then butlast ms else ms)"
    by (simp add: layoutLines_def Let_def textLines_eq stripTrailing_eq [abs_def] ms_def)
  show ?thesis
  proof (cases "last ms = []")
    case True
    then have "ms = butlast ms @ [[]]" using ne by (metis append_butlast_last_id)
    then have "trimEnds ms = trimEnds (butlast ms)" by (metis trimEnds_snoc_empty)
    with True l show ?thesis by (simp add: ms_def)
  next
    case False
    with l show ?thesis by (simp add: ms_def)
  qed
qed

lemma sameUpToLayout_normalize:
  "sameUpToLayout a b \<Longrightarrow> normalizeBody a = normalizeBody b"
proof -
  assume "sameUpToLayout a b"
  then have "trimEnds (layoutLines a) = trimEnds (layoutLines b)"
    by (simp add: sameUpToLayout_def)
  then show ?thesis by (simp add: normalizeBody_alt trimEnds_layoutLines)
qed

section \<open>The claims about the renderer\<close>

subsection \<open>File names of the changed functions\<close>

lemma writeChangedFuncFile_world_indep:
  "map_sum id fst (writeChangedFuncFile e outDir fromRef toRef a b w) =
   map_sum id fst (writeChangedFuncFile e outDir fromRef toRef a b w')"
  by (simp add: writeChangedFuncFile_def Let_def split: option.splits sum.splits)

lemma writeChangedFuncFile_name:
  assumes "outDir \<noteq> []"
    and "writeChangedFuncFile e outDir fromRef toRef a b w = Inr (Inr name, w')"
  shows "name = changedFuncFilenameWithRecv a \<or>
         name = ''identical_'' @ changedFuncFilenameWithRecv a"
  using assms
  by (auto simp: writeChangedFuncFile_def Let_def split: option.splits sum.splits if_splits)

text \<open>
  The name is deterministic. Writing the file of the same changed pair twice, the
  second time in the world the first call left, returns the same result, so the same
  name. The name written is the name that \<^verbatim>\<open>changedFuncFilenameWithRecv\<close> gives the
  from-side record, with or without the prefix for identical bodies, and that name
  depends on the file, the receiver and the name of the record only.
\<close>

lemma changed_file_name_deterministic:
  "(\<forall>w r1 w1 r2 w2.
      writeChangedFuncFile e outDir fromRef toRef fromInfo toInfo w = Inr (r1, w1) \<and>
      writeChangedFuncFile e outDir fromRef toRef fromInfo toInfo w1 = Inr (r2, w2) \<longrightarrow>
      r1 = r2) \<and>
   (\<forall>w name w'. outDir \<noteq> [] \<and>
      writeChangedFuncFile e outDir fromRef toRef fromInfo toInfo w = Inr (Inr name, w') \<longrightarrow>
      name = changedFuncFilenameWithRecv fromInfo \<or>
      name = ''identical_'' @ changedFuncFilenameWithRecv fromInfo) \<and>
   (\<forall>other :: FuncInfo. File other = File fromInfo \<and> Receiver other = Receiver fromInfo \<and>
      Name other = Name fromInfo \<longrightarrow>
      changedFuncFilenameWithRecv other = changedFuncFilenameWithRecv fromInfo)"
proof (intro conjI allI impI)
  fix w r1 w1 r2 w2
  assume h: "writeChangedFuncFile e outDir fromRef toRef fromInfo toInfo w = Inr (r1, w1) \<and>
      writeChangedFuncFile e outDir fromRef toRef fromInfo toInfo w1 = Inr (r2, w2)"
  with writeChangedFuncFile_world_indep [of e outDir fromRef toRef fromInfo toInfo w w1]
  show "r1 = r2" by simp
next
  fix w name w'
  assume "outDir \<noteq> [] \<and>
      writeChangedFuncFile e outDir fromRef toRef fromInfo toInfo w = Inr (Inr name, w')"
  then show "name = changedFuncFilenameWithRecv fromInfo \<or>
      name = ''identical_'' @ changedFuncFilenameWithRecv fromInfo"
    using writeChangedFuncFile_name by blast
next
  fix other :: FuncInfo
  assume "File other = File fromInfo \<and> Receiver other = Receiver fromInfo \<and>
      Name other = Name fromInfo"
  then show "changedFuncFilenameWithRecv other = changedFuncFilenameWithRecv fromInfo"
    by (simp add: changedFuncFilenameWithRecv_def Let_def)
qed

text \<open>
  Claim C3. The claim asks for names that are deterministic and collision-resistant:
  two changed pairs whose from-side records differ in file, receiver or name get
  different base file names. The code is deterministic and does not keep the second
  half. The functions \<^verbatim>\<open>F\<close> of \<^verbatim>\<open>a/b.go\<close> and of \<^verbatim>\<open>a_b.go\<close> change in one diff; both
  are named \<^verbatim>\<open>a_b.go__F.md\<close>, and the renderer writes the two reports to the one path
  \<^verbatim>\<open>out/a_b.go__F.md\<close>, the second over the first, although the option of line 52
  promises each changed function a file of its own. The prefix collides as well: the
  function \<^verbatim>\<open>F\<close> of \<^verbatim>\<open>identical/a.go\<close>, without the prefix, and the function \<^verbatim>\<open>F\<close> of
  \<^verbatim>\<open>a.go\<close>, with the prefix for identical bodies, are both named
  \<^verbatim>\<open>identical_a.go__F.md\<close>.
\<close>

theorem changed_file_name_collision:
  "(File exSlash, Receiver exSlash, Name exSlash) \<noteq>
     (File exUnderscore, Receiver exUnderscore, Name exUnderscore) \<and>
   changedFuncFilenameWithRecv exSlash = ''a_b.go__F.md'' \<and>
   changedFuncFilenameWithRecv exUnderscore = ''a_b.go__F.md'' \<and>
   inventory exCollFrom \<and> inventory exCollTo \<and>
   ChangedFuncs (diffFuncs exCollFrom exCollTo) =
     [(exSlash, exSlash\<lparr>Signature := ''(x int)''\<rparr>),
      (exUnderscore, exUnderscore\<lparr>Signature := ''(x int)''\<rparr>)] \<and>
   map_sum id (\<lambda>(names, w). (names, map fst (files w)))
     (writeAllChangedFuncFiles exEnv ''out'' ''dev'' ''master''
        (ChangedFuncs (diffFuncs exCollFrom exCollTo)) exWorld) =
     Inr ([''a_b.go__F.md'', ''a_b.go__F.md''],
          [''out/a_b.go__F.md'', ''out/a_b.go__F.md'']) \<and>
   (File exInDir, Receiver exInDir, Name exInDir) \<noteq> (File exF, Receiver exF, Name exF) \<and>
   map_sum id fst (writeChangedFuncFile exEnv ''out'' ''dev'' ''master''
     exInDir (exInDir\<lparr>Signature := ''(x int)''\<rparr>) exWorld) =
     Inr (Inr ''identical_a.go__F.md'') \<and>
   map_sum id fst (writeChangedFuncFile exEnv ''out'' ''dev'' ''master'' exF exF' exWorld) =
     Inr (Inr ''identical_a.go__F.md'')"
  by code_simp

subsection \<open>Identical bodies\<close>

lemma sameUpToLayout_identical:
  "sameUpToLayout fromBody toBody \<Longrightarrow> normalizeBody fromBody \<noteq> [] \<Longrightarrow>
   isIdenticalBody fromBody toBody"
  by (simp add: isIdenticalBody_def Let_def sameUpToLayout_normalize)

text \<open>
  Claim C4, as amended. When the output directory can be created and the file written,
  and the two bodies are the same up to layout (the same lines once CRLF, CR and LF
  all end a line and the trailing spaces and tabs of every line are removed), and the
  normalized body is not empty, then the pair is flagged: the file name has the prefix
  \<^verbatim>\<open>identical_\<close>, and the text written ends with the identical-body callout followed by
  the hash line.
\<close>

theorem identical_layout_flagged:
  assumes "outDir \<noteq> []" and "mkdirAll e outDir = None"
    and "\<forall>path content. writeFile e path content = None"
    and "loadBody e fromRef fromInfo = Inr fromBody"
    and "loadBody e toRef toInfo = Inr toBody"
    and "sameUpToLayout fromBody toBody"
    and "normalizeBody fromBody \<noteq> []"
  shows "isIdenticalBody fromBody toBody \<and>
    (\<exists>pre path.
       writeChangedFuncFile e outDir fromRef toRef fromInfo toInfo w =
         Inr (Inr (''identical_'' @ changedFuncFilenameWithRecv fromInfo),
              w\<lparr>files := files w @
                [(path, pre @ identicalNote fromRef toRef @
                    ''_report hash: '' @ sha1Hex6 e (pre @ identicalNote fromRef toRef) @
                    ''_'' @ [LF])]\<rparr>) \<and>
       path = joinPath e outDir (''identical_'' @ changedFuncFilenameWithRecv fromInfo))"
proof -
  have i: "isIdenticalBody fromBody toBody"
    using assms(6,7) by (rule sameUpToLayout_identical)
  define pre where "pre = ''### '' @ fullName fromInfo @ '' '' @ emDash @ '' '' @
      quoted (File fromInfo) @ [LF, LF] @ sideSection fromRef fromInfo fromBody @
      sideSection toRef toInfo toBody @ signatureNote fromRef toRef fromInfo toInfo"
  have r: "changedReport fromRef toRef fromInfo toInfo fromBody toBody =
      pre @ identicalNote fromRef toRef"
    by (simp add: changedReport_def i pre_def)
  have "writeChangedFuncFile e outDir fromRef toRef fromInfo toInfo w =
         Inr (Inr (''identical_'' @ changedFuncFilenameWithRecv fromInfo),
              w\<lparr>files := files w @
                [(joinPath e outDir (''identical_'' @ changedFuncFilenameWithRecv fromInfo),
                  pre @ identicalNote fromRef toRef @
                    ''_report hash: '' @ sha1Hex6 e (pre @ identicalNote fromRef toRef) @
                    ''_'' @ [LF])]\<rparr>)"
    using assms(1-5) by (simp add: writeChangedFuncFile_def Let_def i r)
  with i show ?thesis by blast
qed

lemma ex_bodies:
  "loadBody exEnv ''dev'' exF = Inr (''func F(x int) {'' @ [LF] @ ''  return'' @ [LF] @ ''}'')"
  "loadBody exEnv ''master'' exF' =
     Inr (''func F(x int) {  '' @ [CR, LF] @ ''  return'' @ [TAB, CR, LF] @ ''}'' @ [CR])"
  by code_simp+

lemma ex_same:
  "sameUpToLayout (''func F(x int) {'' @ [LF] @ ''  return'' @ [LF] @ ''}'')
     (''func F(x int) {  '' @ [CR, LF] @ ''  return'' @ [TAB, CR, LF] @ ''}'' @ [CR])"
  "normalizeBody (''func F(x int) {'' @ [LF] @ ''  return'' @ [LF] @ ''}'') \<noteq> []"
  by code_simp+

lemma ex_env_ok: "mkdirAll exEnv ''out'' = None" "\<forall>path content. writeFile exEnv path content = None"
  by (simp_all add: exEnv_def)

theorem identical_layout_flagged_witness:
  "mkdirAll exEnv ''out'' = None \<and>
   loadBody exEnv ''dev'' exF = Inr (''func F(x int) {'' @ [LF] @ ''  return'' @ [LF] @ ''}'') \<and>
   loadBody exEnv ''master'' exF' =
     Inr (''func F(x int) {  '' @ [CR, LF] @ ''  return'' @ [TAB, CR, LF] @ ''}'' @ [CR]) \<and>
   sameUpToLayout (''func F(x int) {'' @ [LF] @ ''  return'' @ [LF] @ ''}'')
     (''func F(x int) {  '' @ [CR, LF] @ ''  return'' @ [TAB, CR, LF] @ ''}'' @ [CR]) \<and>
   isIdenticalBody (''func F(x int) {'' @ [LF] @ ''  return'' @ [LF] @ ''}'')
     (''func F(x int) {  '' @ [CR, LF] @ ''  return'' @ [TAB, CR, LF] @ ''}'' @ [CR]) \<and>
   map_sum id fst (writeChangedFuncFile exEnv ''out'' ''dev'' ''master'' exF exF' exWorld) =
     Inr (Inr (''identical_'' @ changedFuncFilenameWithRecv exF))"
proof -
  have n: "(''out''::string) \<noteq> []" by simp
  from identical_layout_flagged [OF n ex_env_ok ex_bodies ex_same, of exWorld]
  show ?thesis using ex_env_ok(1) ex_bodies ex_same(1) by auto
qed

text \<open>
  The claim as stated fails on bodies that are blank: the two bodies here are the same
  text, one line feed, and the pair is not flagged, since line 621 requires the
  normalized body to be non-empty.
\<close>

theorem blank_bodies_not_flagged:
  "differs exBlankFrom exBlankTo \<and>
   loadBody exEnv ''dev'' exBlankFrom = Inr [LF] \<and>
   loadBody exEnv ''master'' exBlankTo = Inr [LF] \<and>
   sameUpToLayout [LF] [LF] \<and>
   \<not> isIdenticalBody [LF] [LF] \<and>
   map_sum id (\<lambda>(r, w). (r, map (\<lambda>(path, content).
       (path, sublist (identicalNote ''dev'' ''master'') content)) (files w)))
     (writeChangedFuncFile exEnv ''out'' ''dev'' ''master'' exBlankFrom exBlankTo exWorld) =
     Inr (Inr ''blank.go__B.md'', [(''out/blank.go__B.md'', False)])"
  by code_simp

subsection \<open>Empty inventories, and no panic\<close>

text \<open>
  Claim C9. Diffing two empty inventories gives zero totals, empty lists and no package
  counter, and the report of two empty inventories is the summary document with all
  counts zero (followed, unless only the summary is asked for, by the three empty
  listings), whatever the environment answers. For every input the report renderer
  returns a document: no panic is reachable, and the failures of its collaborators
  are warnings.
\<close>

theorem report_never_panics:
  "diffFuncs [] [] =
     \<lparr>NewFuncs = [], RemovedFuncs = [], ChangedFuncs = [], FromTotal = 0, ToTotal = 0,
      PkgStats = []\<rparr> \<and>
   (\<exists>w'. buildMarkdownReport e fromRef toRef [] [] summaryOnly outDir w =
      Inr (''### Function Diff: '' @ quoted fromRef @ '' '' @ rightArrow @ '' '' @
             quoted toRef @ [LF, LF] @
           ''#### Summary'' @ [LF] @
           ''- Total functions in '' @ quoted fromRef @ '': 0'' @ [LF] @
           ''- Total functions in '' @ quoted toRef @ '': 0'' @ [LF] @
           [LF] @
           ''- New functions in '' @ quoted fromRef @ '' only: 0'' @ [LF] @
           ''- Removed functions (only in '' @ quoted toRef @ ''): 0'' @ [LF] @
           ''- Changed functions: 0'' @ [LF, LF] @
           ''#### High-Level Changes by Package'' @ [LF, LF] @
           ''| Package | New | Removed | Changed |'' @ [LF] @
           ''|---------|-----|---------|---------|'' @ [LF] @
           [LF] @
           (if summaryOnly then []
            else ''#### New Functions in '' @ quoted fromRef @ '' (not in '' @
                   quoted toRef @ '')'' @ [LF, LF] @ ''_None_'' @ [LF, LF] @
                 ''#### Removed Functions (only in '' @ quoted toRef @ '')'' @ [LF, LF] @
                 ''_None_'' @ [LF, LF] @
                 ''#### Changed Functions'' @ [LF, LF] @ ''_None_'' @ [LF, LF]),
           w')) \<and>
   (\<exists>doc w'. buildMarkdownReport e fromRef toRef fromFuncs toFuncs summaryOnly outDir w =
      Inr (doc, w'))"
proof (intro conjI)
  show "diffFuncs [] [] =
     \<lparr>NewFuncs = [], RemovedFuncs = [], ChangedFuncs = [], FromTotal = 0, ToTotal = 0,
      PkgStats = []\<rparr>"
    by (rule diffFuncs_empty)
  obtain w1 where wa: "writeAllChangedFuncFiles e outDir fromRef toRef [] w = Inr ([], w1)"
    using writeAll_empty by blast
  show "\<exists>w'. buildMarkdownReport e fromRef toRef [] [] summaryOnly outDir w =
      Inr (''### Function Diff: '' @ quoted fromRef @ '' '' @ rightArrow @ '' '' @
             quoted toRef @ [LF, LF] @
           ''#### Summary'' @ [LF] @
           ''- Total functions in '' @ quoted fromRef @ '': 0'' @ [LF] @
           ''- Total functions in '' @ quoted toRef @ '': 0'' @ [LF] @
           [LF] @
           ''- New functions in '' @ quoted fromRef @ '' only: 0'' @ [LF] @
           ''- Removed functions (only in '' @ quoted toRef @ ''): 0'' @ [LF] @
           ''- Changed functions: 0'' @ [LF, LF] @
           ''#### High-Level Changes by Package'' @ [LF, LF] @
           ''| Package | New | Removed | Changed |'' @ [LF] @
           ''|---------|-----|---------|---------|'' @ [LF] @
           [LF] @
           (if summaryOnly then []
            else ''#### New Functions in '' @ quoted fromRef @ '' (not in '' @
                   quoted toRef @ '')'' @ [LF, LF] @ ''_None_'' @ [LF, LF] @
                 ''#### Removed Functions (only in '' @ quoted toRef @ '')'' @ [LF, LF] @
                 ''_None_'' @ [LF, LF] @
                 ''#### Changed Functions'' @ [LF, LF] @ ''_None_'' @ [LF, LF]),
           w')"
    unfolding buildMarkdownReport_def diffFuncs_empty Let_def
    by (simp add: wa summaryText_def showInt_0 addChangedFilesIndex_def)
  show "\<exists>doc w'. buildMarkdownReport e fromRef toRef fromFuncs toFuncs summaryOnly outDir w =
      Inr (doc, w')"
    by (rule buildMarkdownReport_total)
qed

theorem report_never_panics_witness:
  "buildMarkdownReport exEnv ''dev'' ''master'' [] [] True ''out'' exWorld =
     Inr (''### Function Diff: '' @ quoted ''dev'' @ '' '' @ rightArrow @ '' '' @
             quoted ''master'' @ [LF, LF] @
           ''#### Summary'' @ [LF] @
           ''- Total functions in '' @ quoted ''dev'' @ '': 0'' @ [LF] @
           ''- Total functions in '' @ quoted ''master'' @ '': 0'' @ [LF] @
           [LF] @
           ''- New functions in '' @ quoted ''dev'' @ '' only: 0'' @ [LF] @
           ''- Removed functions (only in '' @ quoted ''master'' @ ''): 0'' @ [LF] @
           ''- Changed functions: 0'' @ [LF, LF] @
           ''#### High-Level Changes by Package'' @ [LF, LF] @
           ''| Package | New | Removed | Changed |'' @ [LF] @
           ''|---------|-----|---------|---------|'' @ [LF] @
           [LF], exWorld) \<and>
   map_sum id snd (buildMarkdownReport exEnv ''dev'' ''master'' exFrom exTo False [] exWorld) =
     Inr exWorld"
proof -
  have 1: "map_sum id snd (buildMarkdownReport exEnv ''dev'' ''master'' [] [] True ''out'' exWorld) = Inr exWorld"
    by code_simp
  have 2: "map_sum id snd (buildMarkdownReport exEnv ''dev'' ''master'' exFrom exTo False [] exWorld) =
     Inr exWorld"
    by code_simp
  from report_never_panics [of exEnv "''dev''" "''master''" True "''out''" exWorld exFrom exTo] 1 2
  show ?thesis by auto
qed

end
